theory Spec2Isabelle
  imports Complex_Main "HOL-Library.Sublist"
begin

section \<open>Strings of the host language\<close>

text \<open>
  A string of the program is modelled as the list of its UTF-16 code units, for
  texts whose code units are all below 256 (the 8-bit \<open>char\<close> of HOL). On that
  range the built-in operations of the host language are the following.
\<close>

definition code_of :: "char \<Rightarrow> nat" where
  "code_of c = of_char c"

text \<open>\<open>String.prototype.toLowerCase\<close>: the letters A-Z and the accented capitals
  U+00C0-U+00DE (U+00D7, the multiplication sign, apart) move up by 32.\<close>

definition lower_char :: "char \<Rightarrow> char" where
  "lower_char c =
     (let n = code_of c in
      if (65 \<le> n \<and> n \<le> 90) \<or> (192 \<le> n \<and> n \<le> 222 \<and> n \<noteq> 215)
      then char_of (n + 32) else c)"

definition toLowerCase :: "string \<Rightarrow> string" where
  "toLowerCase s = map lower_char s"

text \<open>The class \<open>\s\<close> of a regular expression, which is also what \<open>trim\<close>
  removes: tab, line feed, vertical tab, form feed, carriage return, space and the
  no-break space U+00A0.\<close>

definition is_space :: "char \<Rightarrow> bool" where
  "is_space c = (code_of c \<in> {9, 10, 11, 12, 13, 32, 160})"

text \<open>\<open>s.includes(k)\<close>: \<open>k\<close> occurs in \<open>s\<close> as a contiguous block.\<close>

fun js_includes :: "string \<Rightarrow> string \<Rightarrow> bool" where
  "js_includes [] k = (k = [])"
| "js_includes (c # cs) k = (prefix k (c # cs) \<or> js_includes cs k)"

text \<open>\<open>s.split(/\s+/)\<close>: the pieces between maximal runs of white space. A run at
  the start or at the end leaves an empty piece there, and the empty string splits
  into one empty piece.\<close>

function split_ws :: "string \<Rightarrow> string list" where
  "split_ws [] = [[]]"
| "split_ws (c # cs) =
     (if is_space c then [] # split_ws (dropWhile is_space cs)
      else (case split_ws cs of
              [] \<Rightarrow> [[c]]
            | w # ws \<Rightarrow> (c # w) # ws))"
  by pat_completeness auto
termination
  by (relation "measure length") (auto simp: length_dropWhile_le le_imp_less_Suc)

text \<open>\<open>new Set(xs)\<close> keeps the first occurrence of every element, in order.\<close>

definition set_add :: "'a list \<Rightarrow> 'a \<Rightarrow> 'a list" where
  "set_add s x = (if x \<in> set s then s else s @ [x])"

definition new_Set :: "'a list \<Rightarrow> 'a list" where
  "new_Set xs = foldl set_add [] xs"

text \<open>\<open>s.trim()\<close>.\<close>

definition trim :: "string \<Rightarrow> string" where
  "trim s = rev (dropWhile is_space (rev (dropWhile is_space s)))"

text \<open>\<open>s.replace(/pat/g, rep)\<close> for a pattern that is a fixed, non-empty text:
  the occurrences are replaced from left to right, without overlap.\<close>

fun replace_all :: "string \<Rightarrow> string \<Rightarrow> string \<Rightarrow> string" where
  "replace_all pat rep [] = []"
| "replace_all pat rep (c # cs) =
     (if pat \<noteq> [] \<and> prefix pat (c # cs)
      then rep @ replace_all pat rep (drop (length pat - 1) cs)
      else c # replace_all pat rep cs)"

text \<open>\<open>a || b\<close> on values that are a string or \<open>undefined\<close> (\<open>None\<close>): the
  empty string and \<open>undefined\<close> are falsy.\<close>

definition truthy :: "string option \<Rightarrow> bool" where
  "truthy a = (case a of None \<Rightarrow> False | Some s \<Rightarrow> s \<noteq> [])"

definition js_or :: "string option \<Rightarrow> string option \<Rightarrow> string option" where
  "js_or a b = (if truthy a then a else b)"

section \<open>Markup extractor (RSSService.parseRSS, RSSService.cleanHTML)\<close>

text \<open>\<open>.replace(/<[^>]*>/g, '')\<close>: at a \<open><\<close> the pattern matches up to the next
  \<open>>\<close>, when there is one; the scan goes on after the match.\<close>

function strip_tags :: "string \<Rightarrow> string" where
  "strip_tags [] = []"
| "strip_tags (c # cs) =
     (if c = CHR ''<'' \<and> CHR ''>'' \<in> set cs
      then strip_tags (tl (dropWhile (\<lambda>x. x \<noteq> CHR ''>'') cs))
      else c # strip_tags cs)"
  by pat_completeness auto
termination
proof (relation "measure length")
  show "wf (measure length)" by simp
next
  fix c :: char and cs :: string
  show "(tl (dropWhile (\<lambda>x. x \<noteq> CHR ''>'') cs), c # cs) \<in> measure length"
    using length_dropWhile_le [of "\<lambda>x. x \<noteq> CHR ''>''" cs] by simp
next
  fix c :: char and cs :: string
  show "(cs, c # cs) \<in> measure length" by simp
qed

text \<open>\<open>.replace(/\s+/g, ' ')\<close>.\<close>

function collapse_ws :: "string \<Rightarrow> string" where
  "collapse_ws [] = []"
| "collapse_ws (c # cs) =
     (if is_space c then CHR '' '' # collapse_ws (dropWhile is_space cs)
      else c # collapse_ws cs)"
  by pat_completeness auto
termination
  by (relation "measure length") (auto simp: length_dropWhile_le le_imp_less_Suc)

definition decode_entities :: "string \<Rightarrow> string" where
  "decode_entities s =
     replace_all ''&nbsp;'' '' ''
       (replace_all ''&gt;'' ''>''
         (replace_all ''&lt;'' ''<''
           (replace_all ''&amp;'' ''&''
             (replace_all ''&quot;'' [CHR 0x22] s))))"

definition cleanHTML :: "string \<Rightarrow> string" where
  "cleanHTML html =
     (if html = [] then []
      else trim (collapse_ws (decode_entities (strip_tags html))))"

text \<open>The regular expressions of \<open>parseRSS\<close> all have the shape
  \<open>open(.*?)close\<close> with fixed texts \<open>open\<close> and \<open>close\<close>, matched without regard
  to case (flag \<open>i\<close>). The lazy group takes the text up to the first \<open>close\<close>;
  without the flag \<open>s\<close> the dot refuses a line terminator, and the match fails at
  this start position when one comes first.\<close>

definition is_line_terminator :: "char \<Rightarrow> bool" where
  "is_line_terminator c = (code_of c \<in> {10, 13})"

fun ci_prefix :: "string \<Rightarrow> string \<Rightarrow> bool" where
  "ci_prefix [] s = True"
| "ci_prefix (p # ps) [] = False"
| "ci_prefix (p # ps) (c # cs) =
     (if lower_char c = lower_char p then ci_prefix ps cs else False)"

text \<open>The group and the text left after \<open>close\<close>.\<close>

fun lazy_until :: "bool \<Rightarrow> string \<Rightarrow> string \<Rightarrow> (string \<times> string) option" where
  "lazy_until dotall close [] = (if ci_prefix close [] then Some ([], []) else None)"
| "lazy_until dotall close (c # cs) =
     (if ci_prefix close (c # cs) then Some ([], drop (length close) (c # cs))
      else if \<not> dotall \<and> is_line_terminator c then None
      else map_option (\<lambda>(g, r). (c # g, r)) (lazy_until dotall close cs))"

definition match_at :: "bool \<Rightarrow> string \<Rightarrow> string \<Rightarrow> string \<Rightarrow> (string \<times> string) option" where
  "match_at dotall opn close s =
     (if ci_prefix opn s then lazy_until dotall close (drop (length opn) s) else None)"

text \<open>\<open>/<tag><!\[CDATA\[(.*?)\]\]><\/tag>|<tag>(.*?)<\/tag>/i\<close> at one start
  position: the CDATA alternative is tried first; the result is the pair of the two
  groups, the one of the alternative that did not match being \<open>undefined\<close>.\<close>

definition cdata_match_at :: "string \<Rightarrow> string \<Rightarrow> (string option \<times> string option) option" where
  "cdata_match_at tag s =
     (case match_at False (''<'' @ tag @ ''><![CDATA['') ('']]></'' @ tag @ ''>'') s of
        Some (g, r) \<Rightarrow> Some (Some g, None)
      | None \<Rightarrow>
          (case match_at False (''<'' @ tag @ ''>'') (''</'' @ tag @ ''>'') s of
             Some (g, r) \<Rightarrow> Some (None, Some g)
           | None \<Rightarrow> None))"

text \<open>\<open>/<guid[^>]*>(.*?)<\/guid>/i\<close> at one start position.\<close>

definition guid_match_at :: "string \<Rightarrow> (string \<times> string) option" where
  "guid_match_at s =
     (if ci_prefix ''<guid'' s
      then (case dropWhile (\<lambda>x. x \<noteq> CHR ''>'') (drop 5 s) of
              [] \<Rightarrow> None
            | x # r \<Rightarrow> lazy_until False ''</guid>'' r)
      else None)"

text \<open>\<open>s.match(re)\<close> and \<open>re.exec(s)\<close>: the first start position, from the left,
  where the expression matches.\<close>

fun regex_search :: "(string \<Rightarrow> 'a option) \<Rightarrow> string \<Rightarrow> 'a option" where
  "regex_search m [] = m []"
| "regex_search m (c # cs) =
     (case m (c # cs) of Some r \<Rightarrow> Some r | None \<Rightarrow> regex_search m cs)"

record rss_item =
  item_title :: string
  item_link :: string
  item_description :: string
  item_pubDate :: string
  item_guid :: string
  item_content :: string

record rss_feed =
  feed_title :: "string option"
  feed_items :: "rss_item list"

text \<open>The body of the \<open>while\<close> loop of \<open>parseRSS\<close>: the fields of one
  \<open><item>\<close>, and the item pushed (\<open>None\<close> when the guard \<open>itemTitle && link\<close>
  drops it). \<open>cleanHTML\<close> maps \<open>undefined\<close> to the empty string.\<close>

definition clean_opt :: "string option \<Rightarrow> string" where
  "clean_opt h = (case h of None \<Rightarrow> [] | Some s \<Rightarrow> cleanHTML s)"

definition parse_item :: "string \<Rightarrow> rss_item option" where
  "parse_item itemContent =
     (let itemTitle = (case regex_search (cdata_match_at ''title'') itemContent of
                         Some (g1, g2) \<Rightarrow> js_or g1 g2 | None \<Rightarrow> Some []);
          link = (case regex_search (match_at False ''<link>'' ''</link>'') itemContent of
                    Some (g, r) \<Rightarrow> trim g | None \<Rightarrow> []);
          description = (case regex_search (cdata_match_at ''description'') itemContent of
                           Some (g1, g2) \<Rightarrow> js_or g1 g2 | None \<Rightarrow> Some []);
          pubDate = (case regex_search (match_at False ''<pubDate>'' ''</pubDate>'') itemContent of
                       Some (g, r) \<Rightarrow> g | None \<Rightarrow> []);
          guid = (case regex_search guid_match_at itemContent of
                    Some (g, r) \<Rightarrow> g | None \<Rightarrow> [])
      in if truthy itemTitle \<and> link \<noteq> []
         then Some \<lparr>item_title = clean_opt itemTitle, item_link = link,
                     item_description = clean_opt description, item_pubDate = pubDate,
                     item_guid = guid, item_content = clean_opt description\<rparr>
         else None)"

text \<open>The loop \<open>while ((itemMatch = itemRegex.exec(xmlText)) !== null)\<close> with
  \<open>/<item>(.*?)<\/item>/gis\<close>: the groups of the successive matches, each search
  starting where the last match ended.\<close>

function item_contents :: "string \<Rightarrow> string list" where
  "item_contents s =
     (case regex_search (match_at True ''<item>'' ''</item>'') s of
        None \<Rightarrow> []
      | Some (g, rest) \<Rightarrow> g # item_contents rest)"
  by pat_completeness auto
termination
proof (relation "measure length")
  show "wf (measure length)" by simp
next
  fix s :: string and x :: "string \<times> string" and g rest
  assume found: "regex_search (match_at True ''<item>'' ''</item>'') s = Some x"
    and x: "(g, rest) = x"
  have lazy: "length r \<le> length t" if "lazy_until d cl t = Some (h, r)" for d cl t h r
    using that by (induction t arbitrary: h) (auto split: if_splits)
  have at: "length r < length t" if "match_at True ''<item>'' ''</item>'' t = Some (h, r)" for t h r
  proof -
    from that have p: "ci_prefix ''<item>'' t"
      and l: "lazy_until True ''</item>'' (drop (length ''<item>'') t) = Some (h, r)"
      by (auto simp: match_at_def split: if_splits)
    from p have "t \<noteq> []" by auto
    with lazy [OF l] show ?thesis by (cases t) auto
  qed
  have "length r < length t" if "regex_search (match_at True ''<item>'' ''</item>'') t = Some (h, r)" for t h r
    using that at by (induction t) (fastforce split: option.splits)+
  with found x show "(rest, s) \<in> measure length" by auto
qed

definition parseRSS :: "string \<Rightarrow> rss_feed" where
  "parseRSS xmlText =
     (let title = (case regex_search (cdata_match_at ''title'') xmlText of
                     Some (g1, g2) \<Rightarrow> js_or g1 g2 | None \<Rightarrow> Some ''Unknown Feed'')
      in \<lparr>feed_title = title,
          feed_items = List.map_filter parse_item (item_contents xmlText)\<rparr>)"

section \<open>Article classifier (RSSService.categorizeArticle, RSSService.createSnippet)\<close>

datatype category_t = ai_ml | startups | cybersecurity | mobile | web3 | others

definition categorizeArticle :: "string \<Rightarrow> string \<Rightarrow> category_t" where
  "categorizeArticle title content =
     (let text = toLowerCase (title @ '' '' @ content) in
      if js_includes text ''ai'' \<or> js_includes text ''artificial intelligence''
         \<or> js_includes text ''machine learning'' \<or> js_includes text ''ml''
         \<or> js_includes text ''gpt'' \<or> js_includes text ''neural''
         \<or> js_includes text ''openai''
      then ai_ml
      else if js_includes text ''startup'' \<or> js_includes text ''funding''
         \<or> js_includes text ''venture'' \<or> js_includes text ''investment''
         \<or> js_includes text ''y combinator''
      then startups
      else if js_includes text ''security'' \<or> js_includes text ''cyber''
         \<or> js_includes text ''hack'' \<or> js_includes text ''vulnerability''
         \<or> js_includes text ''breach'' \<or> js_includes text ''malware''
      then cybersecurity
      else if js_includes text ''mobile'' \<or> js_includes text ''iphone''
         \<or> js_includes text ''android'' \<or> js_includes text ''app''
         \<or> js_includes text ''smartphone''
      then mobile
      else if js_includes text ''web3'' \<or> js_includes text ''blockchain''
         \<or> js_includes text ''crypto'' \<or> js_includes text ''bitcoin''
         \<or> js_includes text ''ethereum'' \<or> js_includes text ''nft''
      then web3
      else others)"

definition createSnippet :: "string \<Rightarrow> string" where
  "createSnippet content =
     (if content = [] then []
      else (let cleanContent = cleanHTML content in
            if length cleanContent > 200 then trim (take 200 cleanContent) @ ''...''
            else cleanContent))"

section \<open>Numbers of the host language\<close>

text \<open>A number is a real, an infinity or NaN. Rounding to a double is not modelled:
  the operations below are comparisons, minimum and maximum, which are exact, and
  the quotient of two set sizes, which is compared with 0.3 only (a quotient of two
  sizes below \<open>2^53\<close> rounds to the double of 0.3 exactly when it is 3/10).\<close>

datatype jsnum = NaN | NegInfinity | PosInfinity | Num real

definition js_div :: "nat \<Rightarrow> nat \<Rightarrow> jsnum" where
  "js_div n d =
     (if d = 0 then (if n = 0 then NaN else PosInfinity)
      else Num (real n / real d))"

fun js_gt :: "jsnum \<Rightarrow> real \<Rightarrow> bool" where
  "js_gt NaN r = False"
| "js_gt NegInfinity r = False"
| "js_gt PosInfinity r = True"
| "js_gt (Num x) r = (r < x)"

section \<open>The record store (storage.ts, shared schema)\<close>

text \<open>
  The database is modelled by the rows of its tables \<open>articles\<close> and \<open>sources\<close>,
  in insertion order. A primary key, which the database generates, is a number
  taken from a counter. A \<open>Date\<close> is its time value in milliseconds, or the
  invalid date (time value NaN). The columns \<open>thumbnail\<close>, \<open>viewCount\<close>,
  \<open>createdAt\<close> and \<open>updatedAt\<close>, which no modelled operation reads, are left out.
  The column \<open>id\<close> of an article is written \<open>article_id\<close>, and the fields of a
  source and of a feed item carry a prefix, since a field name is a constant of
  the theory. The database itself is taken to be reachable: an operation fails
  only where the driver or the database refuses the values it is given.
\<close>

type_synonym key = nat

datatype jsdate = InvalidDate | Date int

record article =
  article_id :: key
  title :: string
  url :: string
  content :: "string option"
  snippet :: "string option"
  sourceId :: "key option"
  publishedAt :: "int option"
  fetchedAt :: "int option"
  category :: "category_t option"
  sentiment :: "string option"
  embedding :: "string option"

record source =
  src_id :: key
  src_name :: string
  src_url :: string
  rssUrl :: "string option"
  isActive :: "bool option"
  fetchInterval :: "int option"
  lastFetchAt :: "int option"

record store =
  articles :: "article list"
  sources :: "source list"
  next_key :: key

record insert_article =
  ins_title :: string
  ins_url :: string
  ins_content :: string
  ins_snippet :: string
  ins_sourceId :: key
  ins_publishedAt :: jsdate
  ins_category :: category_t
  ins_fetchedAt :: jsdate

datatype db_error = InvalidTimeValue | InvalidText | UniqueViolation | ForeignKeyViolation

text \<open>\<open>text LIKE pattern\<close> of PostgreSQL: \<open>%\<close> stands for any text, \<open>_\<close> for any
  one character, and a backslash takes the next character of the pattern
  literally.\<close>

fun sql_like :: "string \<Rightarrow> string \<Rightarrow> bool" where
  "sql_like s [] = (s = [])"
| "sql_like s (p # ps) =
     (if p = CHR ''%''
      then (if sql_like s ps then True
            else (case s of [] \<Rightarrow> False | x # s' \<Rightarrow> sql_like s' (p # ps)))
      else if p = CHR ''_''
      then (case s of [] \<Rightarrow> False | x # s' \<Rightarrow> sql_like s' ps)
      else if p = CHR 0x5C
      then (case ps of
              [] \<Rightarrow> False
            | q # qs \<Rightarrow> (case s of [] \<Rightarrow> False | x # s' \<Rightarrow> x = q \<and> sql_like s' qs))
      else (case s of [] \<Rightarrow> False | x # s' \<Rightarrow> x = p \<and> sql_like s' ps))"

text \<open>The condition \<open>or(like(title, `%${search}%`), like(content, `%${search}%`))\<close>
  of \<open>getArticles\<close> on one row; a \<open>NULL\<close> content never matches.\<close>

definition search_matches :: "string \<Rightarrow> article \<Rightarrow> bool" where
  "search_matches search a =
     (sql_like (title a) (''%'' @ search @ ''%'')
      \<or> (case content a of None \<Rightarrow> False | Some c \<Rightarrow> sql_like c (''%'' @ search @ ''%'')))"

text \<open>\<open>orderBy(desc(articles.publishedAt))\<close>: the latest first. In a falling order
  PostgreSQL puts the rows without a time first; rows of equal time stay in
  table order here (the database may order them as it likes).\<close>

definition order_by_publishedAt_desc :: "article list \<Rightarrow> article list" where
  "order_by_publishedAt_desc rows =
     filter (\<lambda>a. publishedAt a = None) rows
     @ sort_key (\<lambda>a. - the (publishedAt a)) (filter (\<lambda>a. publishedAt a \<noteq> None) rows)"

text \<open>\<open>getArticles({ search, limit })\<close>, the call of the ingestion coordinator: no
  category, no time range, the first page. An empty \<open>search\<close> is falsy and adds no
  condition.\<close>

definition getArticles_search :: "string \<Rightarrow> nat \<Rightarrow> store \<Rightarrow> article list" where
  "getArticles_search search limit st =
     take (if limit = 0 then 20 else limit)
       (order_by_publishedAt_desc
          (if search \<noteq> [] then filter (search_matches search) (articles st)
           else articles st))"

text \<open>\<open>createArticle\<close>: an \<open>INSERT\<close>. The driver turns a \<open>Date\<close> into text with
  \<open>toISOString\<close>, which throws for the invalid date; the database refuses a text
  that holds the character U+0000, and the schema refuses a URL that is taken
  (\<open>url ... unique()\<close>) and a source that does not exist
  (\<open>sourceId ... references(() => sources.id)\<close>).\<close>

definition has_nul :: "string \<Rightarrow> bool" where
  "has_nul s = (CHR 0x00 \<in> set s)"

definition createArticle :: "insert_article \<Rightarrow> store \<Rightarrow> db_error + store" where
  "createArticle a st =
     (case ins_publishedAt a of
        InvalidDate \<Rightarrow> Inl InvalidTimeValue
      | Date published \<Rightarrow>
     (case ins_fetchedAt a of
        InvalidDate \<Rightarrow> Inl InvalidTimeValue
      | Date fetched \<Rightarrow>
          if has_nul (ins_title a) \<or> has_nul (ins_url a) \<or> has_nul (ins_content a)
             \<or> has_nul (ins_snippet a)
          then Inl InvalidText
          else if ins_url a \<in> set (map url (articles st)) then Inl UniqueViolation
          else if ins_sourceId a \<notin> set (map src_id (sources st))
          then Inl ForeignKeyViolation
          else Inr (st\<lparr>articles := articles st @
                       [\<lparr>article_id = next_key st, title = ins_title a, url = ins_url a,
                         content = Some (ins_content a), snippet = Some (ins_snippet a),
                         sourceId = Some (ins_sourceId a),
                         publishedAt = Some published,
                         fetchedAt = Some fetched,
                         category = Some (ins_category a),
                         sentiment = None, embedding = None\<rparr>],
                     next_key := Suc (next_key st)\<rparr>)))"

definition updateSourceLastFetch :: "int \<Rightarrow> key \<Rightarrow> store \<Rightarrow> store" where
  "updateSourceLastFetch now sid st =
     st\<lparr>sources := map (\<lambda>s. if src_id s = sid then s\<lparr>lastFetchAt := Some now\<rparr> else s)
                       (sources st)\<rparr>"

definition getSources :: "store \<Rightarrow> source list" where
  "getSources st = filter (\<lambda>s. isActive s = Some True) (sources st)"

section \<open>Ingestion coordinator (RSSService.fetchAndStoreArticles, fetchAllSources)\<close>

text \<open>
  The outside world is a parameter: \<open>fetch\<close> maps a URL to the text of the
  response, \<open>None\<close> when the transport fails or the status is not a success
  (\<open>fetchRSS\<close> throws); \<open>Date_parse\<close> is the time value \<open>new Date(string)\<close> computes,
  \<open>None\<close> when the string does not parse (NaN); \<open>now\<close> is the clock, read once per
  run.
\<close>

definition fetchRSS :: "(string \<Rightarrow> string option) \<Rightarrow> string \<Rightarrow> rss_feed option" where
  "fetchRSS fetch rss_url = map_option parseRSS (fetch rss_url)"

definition new_Date :: "(string \<Rightarrow> int option) \<Rightarrow> string \<Rightarrow> jsdate" where
  "new_Date Date_parse s = (case Date_parse s of None \<Rightarrow> InvalidDate | Some t \<Rightarrow> Date t)"

text \<open>\<open>const publishedAt = item.pubDate ? new Date(item.pubDate) : new Date()\<close>.\<close>

definition item_publishedAt :: "(string \<Rightarrow> int option) \<Rightarrow> int \<Rightarrow> rss_item \<Rightarrow> jsdate" where
  "item_publishedAt Date_parse now item =
     (if item_pubDate item \<noteq> [] then new_Date Date_parse (item_pubDate item) else Date now)"

definition articleData :: "(string \<Rightarrow> int option) \<Rightarrow> int \<Rightarrow> key \<Rightarrow> rss_item \<Rightarrow> insert_article" where
  "articleData Date_parse now sid item =
     \<lparr>ins_title = item_title item,
      ins_url = item_link item,
      ins_content = (if item_content item \<noteq> [] then item_content item else item_description item),
      ins_snippet = createSnippet (item_description item),
      ins_sourceId = sid,
      ins_publishedAt = item_publishedAt Date_parse now item,
      ins_category = categorizeArticle (item_title item) (item_description item),
      ins_fetchedAt = Date now\<rparr>"

text \<open>The body of the loop over the items: the number of articles it created (0 or
  1) and the store after it. An error of the insert is caught and logged. (The
  search fails too when the title holds U+0000; the item then creates nothing,
  as it does here, where the insert refuses such a title.)\<close>

definition store_item :: "(string \<Rightarrow> int option) \<Rightarrow> int \<Rightarrow> key \<Rightarrow> rss_item \<Rightarrow> store \<Rightarrow> nat \<times> store" where
  "store_item Date_parse now sid item st =
     (if getArticles_search (item_title item) 1 st \<noteq> [] then (0, st)
      else (case createArticle (articleData Date_parse now sid item) st of
              Inl e \<Rightarrow> (0, st)
            | Inr st' \<Rightarrow> (1, st')))"

fun store_items :: "(string \<Rightarrow> int option) \<Rightarrow> int \<Rightarrow> key \<Rightarrow> rss_item list \<Rightarrow> store \<Rightarrow> nat \<times> store" where
  "store_items Date_parse now sid [] st = (0, st)"
| "store_items Date_parse now sid (item # rest) st =
     (case store_item Date_parse now sid item st of
        (n, st') \<Rightarrow> (case store_items Date_parse now sid rest st' of
                      (m, st'') \<Rightarrow> (n + m, st'')))"

definition fetchAndStoreArticles ::
  "(string \<Rightarrow> string option) \<Rightarrow> (string \<Rightarrow> int option) \<Rightarrow> int \<Rightarrow> key \<Rightarrow> string \<Rightarrow> store \<Rightarrow> nat \<times> store" where
  "fetchAndStoreArticles fetch Date_parse now sid rss_url st =
     (case fetchRSS fetch rss_url of
        None \<Rightarrow> (0, st)
      | Some feed \<Rightarrow>
          (case store_items Date_parse now sid (feed_items feed) st of
             (newArticlesCount, st') \<Rightarrow>
               (newArticlesCount, updateSourceLastFetch now sid st')))"

text \<open>The loop of \<open>fetchAllSources\<close> over the rows \<open>getSources\<close> returned.\<close>

fun fetch_sources ::
  "(string \<Rightarrow> string option) \<Rightarrow> (string \<Rightarrow> int option) \<Rightarrow> int \<Rightarrow> source list \<Rightarrow> store \<Rightarrow> store" where
  "fetch_sources fetch Date_parse now [] st = st"
| "fetch_sources fetch Date_parse now (s # rest) st =
     (case rssUrl s of
        None \<Rightarrow> fetch_sources fetch Date_parse now rest st
      | Some u \<Rightarrow>
          (if u = [] \<or> isActive s \<noteq> Some True
           then fetch_sources fetch Date_parse now rest st
           else fetch_sources fetch Date_parse now rest
                  (snd (fetchAndStoreArticles fetch Date_parse now (src_id s) u st))))"

definition fetchAllSources ::
  "(string \<Rightarrow> string option) \<Rightarrow> (string \<Rightarrow> int option) \<Rightarrow> int \<Rightarrow> store \<Rightarrow> store" where
  "fetchAllSources fetch Date_parse now st = fetch_sources fetch Date_parse now (getSources st) st"

section \<open>Sentiment analysis (AIService.analyzeSentiment)\<close>

text \<open>
  The text service is a parameter. \<open>openai\<close> is \<open>None\<close> when no API key is
  configured; otherwise it maps the text sent to what the completion call gives:
  an error (the call throws, or the reply has no choice), or the content of the
  first choice (\<open>None\<close> for \<open>null\<close>). \<open>JSON_parse\<close> is \<open>JSON.parse\<close>, \<open>None\<close> where it
  throws. \<open>coerce\<close> is the number the host language converts a string, an array or
  an object to.
\<close>

datatype jsval = JNull | JBool bool | JNum real | JStr string
  | JArr "jsval list" | JObj "(string \<times> jsval) list"

datatype completion = ApiError | Content "string option"

record sentiment_result =
  sr_sentiment :: jsval
  score :: jsnum
  confidence :: jsnum

text \<open>\<open>value.name\<close> for a value other than \<open>null\<close>: the last entry of that name of an
  object, \<open>undefined\<close> (\<open>None\<close>) otherwise.\<close>

definition get_prop :: "jsval \<Rightarrow> string \<Rightarrow> jsval option" where
  "get_prop v name = (case v of JObj kvs \<Rightarrow> map_of (rev kvs) name | _ \<Rightarrow> None)"

fun val_truthy :: "jsval option \<Rightarrow> bool" where
  "val_truthy None = False"
| "val_truthy (Some JNull) = False"
| "val_truthy (Some (JBool b)) = b"
| "val_truthy (Some (JNum r)) = (r \<noteq> 0)"
| "val_truthy (Some (JStr s)) = (s \<noteq> [])"
| "val_truthy (Some (JArr xs)) = True"
| "val_truthy (Some (JObj kvs)) = True"

definition val_or :: "jsval option \<Rightarrow> jsval \<Rightarrow> jsval" where
  "val_or a d = (if val_truthy a then the a else d)"

fun to_number :: "(jsval \<Rightarrow> jsnum) \<Rightarrow> jsval \<Rightarrow> jsnum" where
  "to_number coerce JNull = Num 0"
| "to_number coerce (JBool b) = Num (if b then 1 else 0)"
| "to_number coerce (JNum r) = Num r"
| "to_number coerce v = coerce v"

fun jsnum_le :: "jsnum \<Rightarrow> jsnum \<Rightarrow> bool" where
  "jsnum_le NegInfinity y = True"
| "jsnum_le x PosInfinity = True"
| "jsnum_le (Num a) (Num b) = (a \<le> b)"
| "jsnum_le x y = False"

definition Math_min :: "jsnum \<Rightarrow> jsnum \<Rightarrow> jsnum" where
  "Math_min a b = (if a = NaN \<or> b = NaN then NaN else if jsnum_le a b then a else b)"

definition Math_max :: "jsnum \<Rightarrow> jsnum \<Rightarrow> jsnum" where
  "Math_max a b = (if a = NaN \<or> b = NaN then NaN else if jsnum_le a b then b else a)"

definition neutral_default :: sentiment_result where
  "neutral_default = \<lparr>sr_sentiment = JStr ''neutral'', score = Num 0, confidence = Num 0\<rparr>"

definition analyzeSentiment ::
  "(string \<Rightarrow> completion) option \<Rightarrow> (string \<Rightarrow> jsval option) \<Rightarrow> (jsval \<Rightarrow> jsnum) \<Rightarrow> string \<Rightarrow> sentiment_result" where
  "analyzeSentiment openai JSON_parse coerce text =
     (case openai of
        None \<Rightarrow> neutral_default
      | Some create \<Rightarrow>
          (case create (take 2000 text) of
             ApiError \<Rightarrow> neutral_default
           | Content c \<Rightarrow>
               (case JSON_parse (if truthy c then the c else ''{}'') of
                  None \<Rightarrow> neutral_default
                | Some JNull \<Rightarrow> neutral_default
                | Some result \<Rightarrow>
                    \<lparr>sr_sentiment = val_or (get_prop result ''sentiment'') (JStr ''neutral''),
                     score = Math_max (Num (- 1)) (Math_min (Num 1)
                               (to_number coerce (val_or (get_prop result ''score'') (JNum 0)))),
                     confidence = Math_max (Num 0) (Math_min (Num 1)
                               (to_number coerce (val_or (get_prop result ''confidence'') (JNum (1 / 2)))))\<rparr>)))"

section \<open>Trending aggregator (NewsService.updateTrendingTopics)\<close>

definition techKeywords :: "string list" where
  "techKeywords =
     [''ai'', ''artificial intelligence'', ''machine learning'', ''ml'', ''deep learning'',
      ''openai'', ''gpt'', ''chatgpt'', ''claude'', ''llm'', ''neural network'',
      ''blockchain'', ''crypto'', ''bitcoin'', ''ethereum'', ''web3'', ''nft'',
      ''startup'', ''funding'', ''venture capital'', ''ipo'', ''acquisition'',
      ''cybersecurity'', ''security'', ''hack'', ''breach'', ''vulnerability'',
      ''mobile'', ''iphone'', ''android'', ''app'', ''ios'',
      ''cloud'', ''aws'', ''azure'', ''google cloud'', ''saas'',
      ''apple'', ''google'', ''microsoft'', ''meta'', ''tesla'', ''nvidia'',
      ''quantum'', ''robotics'', ''automation'', ''iot'', ''ar'', ''vr'',
      ''privacy'', ''data'', ''algorithm'', ''software'', ''hardware'',
      ''api'', ''opensource'', ''developer'', ''programming'']"

text \<open>
  The pattern \<open>/\b[A-Z][a-z]+(?:\s+[A-Z][a-z]+)*\b/g\<close> of the company names. A word
  is a capital A-Z and the whole run of letters a-z after it (a shorter run is
  followed by a letter, where neither \<open>\s\<close> nor \<open>\b\<close> matches). The greedy star
  takes the longest chain of words, separated by white space, that ends at a word
  boundary.
\<close>

definition is_upper :: "char \<Rightarrow> bool" where
  "is_upper c = (65 \<le> code_of c \<and> code_of c \<le> 90)"

definition is_lower :: "char \<Rightarrow> bool" where
  "is_lower c = (97 \<le> code_of c \<and> code_of c \<le> 122)"

definition is_word :: "char \<Rightarrow> bool" where
  "is_word c = (is_upper c \<or> is_lower c \<or> (48 \<le> code_of c \<and> code_of c \<le> 57) \<or> c = CHR ''_'')"

definition cap_word :: "string \<Rightarrow> (string \<times> string) option" where
  "cap_word s =
     (case s of
        [] \<Rightarrow> None
      | c # cs \<Rightarrow>
          (if is_upper c \<and> takeWhile is_lower cs \<noteq> []
           then Some (c # takeWhile is_lower cs, dropWhile is_lower cs)
           else None))"

function cap_chain :: "string \<Rightarrow> (string \<times> string) option" where
  "cap_chain s =
     (case cap_word s of
        None \<Rightarrow> None
      | Some (w, r) \<Rightarrow>
          (case (if takeWhile is_space r \<noteq> [] then cap_chain (dropWhile is_space r) else None) of
             Some (m, rest) \<Rightarrow> Some (w @ takeWhile is_space r @ m, rest)
           | None \<Rightarrow>
               (case r of
                  [] \<Rightarrow> Some (w, r)
                | x # xs \<Rightarrow> if is_word x then None else Some (w, r))))"
  by pat_completeness auto
termination
proof (relation "measure length")
  show "wf (measure length)" by simp
next
  fix s :: string and x :: "string \<times> string" and w r
  assume "cap_word s = Some x" and "(w, r) = x"
  then have "length r < length s"
    using length_dropWhile_le [of is_lower "tl s"]
    by (auto simp: cap_word_def split: list.splits if_splits)
  then show "(dropWhile is_space r, s) \<in> measure length"
    using length_dropWhile_le [of is_space r] by simp
qed

text \<open>\<open>text.match(companyPattern) || []\<close>: the matches from left to right; the flag
  says whether the character before the position is a word character.\<close>

function company_scan :: "bool \<Rightarrow> string \<Rightarrow> string list" where
  "company_scan prev_word [] = []"
| "company_scan prev_word (c # cs) =
     (case (if prev_word then None else cap_chain (c # cs)) of
        Some (m, rest) \<Rightarrow>
          m # company_scan True rest
      | None \<Rightarrow> company_scan (is_word c) cs)"
  by pat_completeness auto
termination
proof (relation "measure (\<lambda>(p, s). length s)")
  show "wf (measure (\<lambda>(p :: bool, s :: string). length s))" by simp
next
  fix prev_word :: bool and c :: char and cs :: string
  show "((is_word c, cs), (prev_word, c # cs)) \<in> measure (\<lambda>(p, s). length s)" by simp
next
  fix prev_word :: bool and c :: char and cs :: string
    and x :: "string \<times> string" and m rest
  assume found: "(if prev_word then None else cap_chain (c # cs)) = Some x"
    and x: "(m, rest) = x"
  have word: "length r < length t" if "cap_word t = Some (h, r)" for t h r
    using that length_dropWhile_le [of is_lower "tl t"]
    by (auto simp: cap_word_def split: list.splits if_splits)
  have chain: "length r < length t" if "cap_chain t = Some (h, r)" for t h r
    using that
  proof (induction t arbitrary: h r rule: cap_chain.induct)
    case (1 s)
    from "1.prems" obtain w r0 where w: "cap_word s = Some (w, r0)"
      by (subst (asm) cap_chain.simps) (auto split: option.splits)
    show ?case
    proof (cases "takeWhile is_space r0 \<noteq> [] \<and> cap_chain (dropWhile is_space r0) \<noteq> None")
      case True
      then obtain m' rest' where rec: "cap_chain (dropWhile is_space r0) = Some (m', rest')"
        by auto
      with True w "1.prems" have "r = rest'"
        by (subst (asm) cap_chain.simps) (auto split: option.splits)
      moreover from "1.IH" [OF w refl _ rec] True
      have "length rest' < length (dropWhile is_space r0)" by simp
      ultimately show ?thesis
        using word [OF w] length_dropWhile_le [of is_space r0] by simp
    next
      case False
      with w "1.prems" have "r = r0"
        by (subst (asm) cap_chain.simps) (auto split: option.splits list.splits if_splits)
      with word [OF w] show ?thesis by simp
    qed
  qed
  from found x have "cap_chain (c # cs) = Some (m, rest)"
    by (auto split: if_splits)
  from chain [OF this]
  show "((True, rest), (prev_word, c # cs)) \<in> measure (\<lambda>(p, s). length s)" by simp
qed

definition extractKeywords :: "string \<Rightarrow> string list" where
  "extractKeywords text =
     new_Set (filter (js_includes text) techKeywords
              @ map toLowerCase (company_scan False text))"

text \<open>A \<open>Map\<close> from keywords to counts keeps its keys in insertion order.
  \<open>m.set(k, (m.get(k) || 0) + 1)\<close>:\<close>

fun map_bump :: "(string \<times> nat) list \<Rightarrow> string \<Rightarrow> (string \<times> nat) list" where
  "map_bump [] k = [(k, 1)]"
| "map_bump ((k', n) # m) k =
     (if k' = k then (k', n + 1) # m else (k', n) # map_bump m k)"

definition article_keywords :: "article \<Rightarrow> string list" where
  "article_keywords a =
     extractKeywords (toLowerCase (title a @ '' '' @ (case snippet a of None \<Rightarrow> [] | Some s \<Rightarrow> s)))"

definition category_name :: "category_t \<Rightarrow> string" where
  "category_name c =
     (case c of ai_ml \<Rightarrow> ''ai_ml'' | startups \<Rightarrow> ''startups''
      | cybersecurity \<Rightarrow> ''cybersecurity'' | mobile \<Rightarrow> ''mobile''
      | web3 \<Rightarrow> ''web3'' | others \<Rightarrow> ''others'')"

text \<open>\<open>article.category ?? ''\<close>.\<close>

definition categoryKey :: "article \<Rightarrow> string" where
  "categoryKey a = (case category a of None \<Rightarrow> [] | Some c \<Rightarrow> category_name c)"

text \<open>The first loop of \<open>updateTrendingTopics\<close>. Its state is the pair of
  \<open>keywordCounts\<close> and \<open>categoryTopics\<close>; the latter maps a category, in the order
  the categories first appear, to the counts of that category. For one article the
  map of its category is created when it is missing, and every keyword of the
  article is counted once in both maps.\<close>

definition category_init ::
  "(string \<times> (string \<times> nat) list) list \<Rightarrow> string \<Rightarrow> (string \<times> (string \<times> nat) list) list" where
  "category_init ct c = (if c \<in> set (map fst ct) then ct else ct @ [(c, [])])"

definition category_bump ::
  "(string \<times> (string \<times> nat) list) list \<Rightarrow> string \<Rightarrow> string list
     \<Rightarrow> (string \<times> (string \<times> nat) list) list" where
  "category_bump ct c keywords =
     map (\<lambda>(c', m). if c' = c then (c', foldl map_bump m keywords) else (c', m)) ct"

definition count_article ::
  "(string \<times> nat) list \<times> (string \<times> (string \<times> nat) list) list \<Rightarrow> article
     \<Rightarrow> (string \<times> nat) list \<times> (string \<times> (string \<times> nat) list) list" where
  "count_article acc a =
     (let keywords = article_keywords a; c = categoryKey a
      in (foldl map_bump (fst acc) keywords,
          category_bump (category_init (snd acc) c) c keywords))"

definition keywordCounts :: "article list \<Rightarrow> (string \<times> nat) list" where
  "keywordCounts recentArticles = fst (foldl count_article ([], []) recentArticles)"

definition categoryTopics :: "article list \<Rightarrow> (string \<times> (string \<times> nat) list) list" where
  "categoryTopics recentArticles = snd (foldl count_article ([], []) recentArticles)"

text \<open>\<open>Array.from(m.entries()).sort(([, a], [, b]) => b - a)\<close>: a stable sort by
  falling count.\<close>

definition sort_by_count :: "(string \<times> nat) list \<Rightarrow> (string \<times> nat) list" where
  "sort_by_count m = sort_key (\<lambda>kn. - int (snd kn)) m"

definition calculateGrowthRate :: "string \<Rightarrow> nat \<Rightarrow> int" where
  "calculateGrowthRate topic currentCount = min 100 ((int currentCount - 1) * 10)"

record trending_record =
  tr_date :: int
  tr_topic :: string
  tr_count :: nat
  tr_category :: "string option"
  tr_growthRate :: int

definition global_records :: "int \<Rightarrow> article list \<Rightarrow> trending_record list" where
  "global_records today recentArticles =
     map (\<lambda>(topic, count).
            \<lparr>tr_date = today, tr_topic = topic, tr_count = count, tr_category = None,
             tr_growthRate = calculateGrowthRate topic count\<rparr>)
         (filter (\<lambda>(topic, count). count \<ge> 3)
            (take 20 (sort_by_count (keywordCounts recentArticles))))"

definition category_records :: "int \<Rightarrow> string \<Rightarrow> (string \<times> nat) list \<Rightarrow> trending_record list" where
  "category_records today cat topics =
     map (\<lambda>(topic, count).
            \<lparr>tr_date = today, tr_topic = topic, tr_count = count, tr_category = Some cat,
             tr_growthRate = calculateGrowthRate topic count\<rparr>)
         (filter (\<lambda>(topic, count). count \<ge> 2) (take 10 (sort_by_count topics)))"

text \<open>The records \<open>updateTrendingTopics\<close> sets out to create, in order: the global
  ones, then those of each category.\<close>

definition trending_candidates :: "int \<Rightarrow> article list \<Rightarrow> trending_record list" where
  "trending_candidates today recentArticles =
     global_records today recentArticles
     @ concat (map (\<lambda>(cat, topics). category_records today cat topics)
                   (categoryTopics recentArticles))"

text \<open>\<open>createTrendingRecord\<close>: an \<open>INSERT\<close>, which the database refuses when the
  category is not a value of the enumeration (the key \<open>''\<close> of the articles without
  a category is none).\<close>

definition category_labels :: "string list" where
  "category_labels = map category_name [ai_ml, startups, cybersecurity, mobile, web3, others]"

definition insert_refused :: "trending_record \<Rightarrow> bool" where
  "insert_refused r =
     (case tr_category r of None \<Rightarrow> False | Some c \<Rightarrow> c \<notin> set category_labels)"

text \<open>The records one run of \<open>updateTrendingTopics\<close> creates: the first refused insert
  throws, the \<open>catch\<close> around the whole body ends the run, and the records after it
  are not created. \<open>recentArticles\<close> is what
  \<open>getArticles({ timeRange: 'today', limit: 100 })\<close> returned and \<open>today\<close> the day
  bucket.\<close>

definition updateTrendingTopics :: "int \<Rightarrow> article list \<Rightarrow> trending_record list" where
  "updateTrendingTopics today recentArticles =
     takeWhile (\<lambda>r. \<not> insert_refused r) (trending_candidates today recentArticles)"

section \<open>Related-article linker (NewsService.generateRelatedArticles)\<close>

definition title_words :: "article \<Rightarrow> string list" where
  "title_words a = new_Set (split_ws (toLowerCase (title a)))"

definition calculateSimpleSimilarity :: "article \<Rightarrow> article \<Rightarrow> jsnum" where
  "calculateSimpleSimilarity article1 article2 =
     (let words1 = title_words article1;
          words2 = title_words article2;
          intersection = new_Set (filter (\<lambda>x. x \<in> set words2) words1);
          union = new_Set (words1 @ words2)
      in js_div (length intersection) (length union))"

text \<open>The operations one run of the linker asks of the store, in order, when none
  of them fails (a failing one ends the run).
  \<open>generateEmbedding\<close> is the text service (an empty vector when it is unavailable or
  fails), \<open>recentArticles\<close> what \<open>getArticles({ timeRange: 'week', limit: 100 })\<close>
  returned.\<close>

datatype link_op = SetEmbedding key "real list" | CreateRelated key key jsnum

definition potentialRelated :: "article list \<Rightarrow> article \<Rightarrow> article list" where
  "potentialRelated recentArticles a =
     filter (\<lambda>other. article_id other \<noteq> article_id a \<and> category other = category a) recentArticles"

definition related_ops :: "article list \<Rightarrow> article \<Rightarrow> link_op list" where
  "related_ops recentArticles a =
     map (\<lambda>related. CreateRelated (article_id a) (article_id related) (calculateSimpleSimilarity a related))
         (filter (\<lambda>related. js_gt (calculateSimpleSimilarity a related) (3 / 10))
                 (take 5 (potentialRelated recentArticles a)))"

definition link_article :: "(string \<Rightarrow> real list) \<Rightarrow> article list \<Rightarrow> article \<Rightarrow> link_op list" where
  "link_article generateEmbedding recentArticles a =
     (if \<not> truthy (content a) then []
      else (let embedding = generateEmbedding (title a @ [CHR 0x0A] @ the (content a)) in
            if length embedding > 0
            then SetEmbedding (article_id a) embedding # related_ops recentArticles a
            else []))"

definition generateRelatedArticles :: "(string \<Rightarrow> real list) \<Rightarrow> article list \<Rightarrow> link_op list" where
  "generateRelatedArticles generateEmbedding recentArticles =
     concat (map (link_article generateEmbedding recentArticles) recentArticles)"

fun is_edge :: "link_op \<Rightarrow> bool" where
  "is_edge (CreateRelated x y s) = True"
| "is_edge (SetEmbedding x e) = False"

section \<open>Reference formulation of the classifier\<close>

text \<open>The classifier as the specification words it: the categories in their match
  order, each with its keywords; the first category one of whose keywords occurs in
  the lower-cased text wins, and \<open>others\<close> catches the rest.\<close>

definition category_keywords :: "(category_t \<times> string list) list" where
  "category_keywords =
     [(ai_ml, [''ai'', ''artificial intelligence'', ''machine learning'', ''ml'', ''gpt'',
               ''neural'', ''openai'']),
      (startups, [''startup'', ''funding'', ''venture'', ''investment'', ''y combinator'']),
      (cybersecurity, [''security'', ''cyber'', ''hack'', ''vulnerability'', ''breach'',
                       ''malware'']),
      (mobile, [''mobile'', ''iphone'', ''android'', ''app'', ''smartphone'']),
      (web3, [''web3'', ''blockchain'', ''crypto'', ''bitcoin'', ''ethereum'', ''nft''])]"

definition first_match_category :: "string \<Rightarrow> string \<Rightarrow> category_t" where
  "first_match_category ttl body =
     (case find (\<lambda>(c, kws). list_ex (js_includes (toLowerCase (ttl @ '' '' @ body))) kws)
                category_keywords of
        Some (c, kws) \<Rightarrow> c
      | None \<Rightarrow> others)"

section \<open>Example data\<close>

definition example_article :: "key \<Rightarrow> string \<Rightarrow> category_t \<Rightarrow> article" where
  "example_article i t c =
     \<lparr>article_id = i, title = t, url = ''https://example.org/'' @ t,
      content = Some ''text'', snippet = None, sourceId = None, publishedAt = None,
      fetchedAt = None, category = Some c, sentiment = None, embedding = None\<rparr>"

text \<open>Seven articles with one title and one category.\<close>

definition example_seven :: "article list" where
  "example_seven =
     [example_article 1 ''Hello World'' ai_ml, example_article 2 ''Hello World'' ai_ml,
      example_article 3 ''Hello World'' ai_ml, example_article 4 ''Hello World'' ai_ml,
      example_article 5 ''Hello World'' ai_ml, example_article 6 ''Hello World'' ai_ml,
      example_article 7 ''Hello World'' ai_ml]"

text \<open>Seven articles of one category: the first and the last share a title, the
  five between them share another.\<close>

definition example_late :: "article list" where
  "example_late =
     [example_article 1 ''Hello World'' ai_ml, example_article 2 ''Other thing'' ai_ml,
      example_article 3 ''Other thing'' ai_ml, example_article 4 ''Other thing'' ai_ml,
      example_article 5 ''Other thing'' ai_ml, example_article 6 ''Other thing'' ai_ml,
      example_article 7 ''Hello World'' ai_ml]"

definition example_week :: "article list" where
  "example_week =
     [example_article 1 ''Hello World'' ai_ml,
      example_article 2 ''Hello World'' ai_ml,
      example_article 3 ''Other thing'' ai_ml]"

definition example_source :: "key \<Rightarrow> string \<Rightarrow> source" where
  "example_source i u =
     \<lparr>src_id = i, src_name = ''Feed'', src_url = ''https://example.org'', rssUrl = Some u,
      isActive = Some True, fetchInterval = Some 300, lastFetchAt = None\<rparr>"

text \<open>A store with one article and two sources, and a network on which the feed of
  the first source is down and the feed of the second has one item, titled "AI".\<close>

definition example_store :: store where
  "example_store =
     \<lparr>articles = [(example_article 1 ''OpenAI launch'' ai_ml)\<lparr>url := ''https://example.org/1''\<rparr>],
      sources = [example_source 10 ''down'', example_source 11 ''up''],
      next_key = 2\<rparr>"

definition example_fetch :: "string \<Rightarrow> string option" where
  "example_fetch u =
     (if u = ''up'' then Some ''<item><title>AI</title><link>https://example.org/2</link></item>''
      else None)"

text \<open>Two articles of one day, both about GPT and both in the category AI/ML; and
  five articles of one day that all mention AI.\<close>

definition example_day :: "article list" where
  "example_day = [example_article 1 ''GPT one'' ai_ml, example_article 2 ''GPT two'' ai_ml]"

definition example_five :: "article list" where
  "example_five =
     [example_article 1 ''AI'' ai_ml, example_article 2 ''AI'' ai_ml,
      example_article 3 ''AI'' ai_ml, example_article 4 ''AI'' ai_ml,
      example_article 5 ''AI'' ai_ml]"

text \<open>Four articles of one day about GPT, the first two without a category.\<close>

definition example_mixed :: "article list" where
  "example_mixed =
     [(example_article 1 ''GPT one'' ai_ml)\<lparr>category := None\<rparr>,
      (example_article 2 ''GPT two'' ai_ml)\<lparr>category := None\<rparr>,
      example_article 3 ''GPT three'' ai_ml, example_article 4 ''GPT four'' ai_ml]"

text \<open>An item whose date is not a date, a date parser that refuses it, and the
  reply of a text service whose score is a word.\<close>

definition example_item :: rss_item where
  "example_item =
     \<lparr>item_title = ''AI'', item_link = ''https://example.org/2'', item_description = [],
      item_pubDate = ''not a date'', item_guid = [], item_content = []\<rparr>"

definition example_Date_parse :: "string \<Rightarrow> int option" where
  "example_Date_parse s = (if s = ''not a date'' then None else Some 0)"

definition example_reply :: jsval where
  "example_reply =
     JObj [(''sentiment'', JStr ''positive''), (''score'', JStr ''high''),
           (''confidence'', JNum (9 / 10))]"

section \<open>Auxiliary notions of the proofs\<close>

text \<open>The article data of an item are refused when the insert fails whatever the
  store holds: the date does not parse, or a text holds U+0000. An item is settled
  in a store when the coordinator cannot create an article for it there: the search
  for its title finds a row, or its data are refused, or its link is the URL of a
  row, or the source is not a row of \<open>sources\<close>.\<close>

definition refused :: "insert_article \<Rightarrow> bool" where
  "refused a =
     (ins_publishedAt a = InvalidDate \<or> ins_fetchedAt a = InvalidDate
      \<or> has_nul (ins_title a) \<or> has_nul (ins_url a) \<or> has_nul (ins_content a)
      \<or> has_nul (ins_snippet a))"

definition settled :: "(string \<Rightarrow> int option) \<Rightarrow> key \<Rightarrow> rss_item \<Rightarrow> store \<Rightarrow> bool" where
  "settled Date_parse sid item st =
     (getArticles_search (item_title item) 1 st \<noteq> []
      \<or> refused (articleData Date_parse 0 sid item)
      \<or> item_link item \<in> set (map url (articles st))
      \<or> sid \<notin> set (map src_id (sources st)))"

text \<open>A text has a tag when the pattern \<open><[^>]*>\<close> matches somewhere in it: some
  \<open><\<close> has a \<open>>\<close> after it.\<close>

fun has_tag :: "string \<Rightarrow> bool" where
  "has_tag [] = False"
| "has_tag (c # cs) = ((c = CHR ''<'' \<and> CHR ''>'' \<in> set cs) \<or> has_tag cs)"

text \<open>A text has a double space when two white-space characters stand side by
  side in it.\<close>

fun double_space :: "string \<Rightarrow> bool" where
  "double_space (c # d # cs) = ((is_space c \<and> is_space d) \<or> double_space (d # cs))"
| "double_space cs = False"

definition is_bracket :: "char \<Rightarrow> bool" where
  "is_bracket c = (c = CHR ''<'' \<or> c = CHR ''>'')"

text \<open>The number of articles of a sample that mention a keyword, the keywords of a
  sample in the order of their first mention, and the mention counts in that
  order.\<close>

definition mentions :: "article list \<Rightarrow> string \<Rightarrow> nat" where
  "mentions recentArticles k =
     length (filter (\<lambda>a. k \<in> set (article_keywords a)) recentArticles)"

definition keyword_order :: "article list \<Rightarrow> string list" where
  "keyword_order recentArticles = new_Set (concat (map article_keywords recentArticles))"

definition mention_counts :: "article list \<Rightarrow> (string \<times> nat) list" where
  "mention_counts recentArticles =
     map (\<lambda>k. (k, mentions recentArticles k)) (keyword_order recentArticles)"

text \<open>The articles of a sample that have a given category key.\<close>

definition of_category :: "string \<Rightarrow> article list \<Rightarrow> article list" where
  "of_category c recentArticles = filter (\<lambda>a. categoryKey a = c) recentArticles"

text \<open>The count a map gives a keyword, 0 for a keyword that is not a key.\<close>

definition count_of :: "(string \<times> nat) list \<Rightarrow> string \<Rightarrow> nat" where
  "count_of m k = (case map_of m k of None \<Rightarrow> 0 | Some n \<Rightarrow> n)"

text \<open>The count the map of a category gives a keyword, and the well-formedness of
  the map of maps: no category and, within a category, no keyword occurs twice.\<close>

definition category_count :: "(string \<times> (string \<times> nat) list) list \<Rightarrow> string \<Rightarrow> string \<Rightarrow> nat" where
  "category_count ct c k = (case map_of ct c of None \<Rightarrow> 0 | Some m \<Rightarrow> count_of m k)"

text \<open>The keywords the map of a category holds, in their order.\<close>

definition category_keys :: "(string \<times> (string \<times> nat) list) list \<Rightarrow> string \<Rightarrow> string list" where
  "category_keys ct c = (case map_of ct c of None \<Rightarrow> [] | Some m \<Rightarrow> map fst m)"

definition distinct_keys :: "(string \<times> (string \<times> nat) list) list \<Rightarrow> bool" where
  "distinct_keys ct = (distinct (map fst ct) \<and> list_all (\<lambda>cm. distinct (map fst (snd cm))) ct)"

section \<open>Properties\<close>

lemma set_foldl_set_add: "set (foldl set_add acc xs) = set acc \<union> set xs"
  by (induction xs arbitrary: acc) (auto simp: set_add_def)

lemma distinct_foldl_set_add: "distinct acc \<Longrightarrow> distinct (foldl set_add acc xs)"
  by (induction xs arbitrary: acc) (auto simp: set_add_def)

lemma set_new_Set: "set (new_Set xs) = set xs"
  by (simp add: new_Set_def set_foldl_set_add)

lemma distinct_new_Set: "distinct (new_Set xs)"
  by (simp add: new_Set_def distinct_foldl_set_add)

lemma length_new_Set: "length (new_Set xs) = card (set xs)"
  using distinct_card [OF distinct_new_Set, of xs] by (simp add: set_new_Set)

lemma split_ws_nonempty: "split_ws s \<noteq> []"
  by (induction s rule: split_ws.induct) (auto split: list.splits)

subsection \<open>The similarity of the linker\<close>

lemma length_new_Set_filter:
  "length (new_Set (filter (\<lambda>x. x \<in> set ys) xs)) = card (set xs \<inter> set ys)"
proof -
  have "set (filter (\<lambda>x. x \<in> set ys) xs) = set xs \<inter> set ys" by auto
  then show ?thesis by (simp add: length_new_Set)
qed

lemma similarity_jaccard:
  "calculateSimpleSimilarity a b =
     js_div (card (set (title_words a) \<inter> set (title_words b)))
            (card (set (title_words a) \<union> set (title_words b)))"
  unfolding calculateSimpleSimilarity_def Let_def length_new_Set_filter
  by (simp add: length_new_Set)

lemma set_title_words: "set (title_words a) = set (split_ws (toLowerCase (title a)))"
  by (simp add: title_words_def set_new_Set)

lemma title_words_nonempty: "set (title_words a) \<noteq> {}"
  using split_ws_nonempty [of "toLowerCase (title a)"] by (simp add: set_title_words)

lemma union_size_pos: "0 < card (set (title_words a) \<union> set (title_words b))"
  using title_words_nonempty [of a] by (simp add: card_gt_0_iff)

text \<open>
  C10. The similarity of the linker is total and symmetric. For all articles \<open>a\<close>
  and \<open>b\<close>: the union of the two sets of title words is never empty (splitting
  even the empty title gives one word), so the division is by a positive size;
  the similarity of \<open>a\<close> and \<open>b\<close> is that of \<open>b\<close> and \<open>a\<close>; and it is a number
  between 0 and 1, never NaN nor an infinity.
\<close>

theorem similarity_total_symmetric_bounded:
  "0 < length (new_Set (title_words a @ title_words b))
   \<and> calculateSimpleSimilarity a b = calculateSimpleSimilarity b a
   \<and> (\<exists>r. calculateSimpleSimilarity a b = Num r \<and> 0 \<le> r \<and> r \<le> 1)"
proof (intro conjI)
  show "0 < length (new_Set (title_words a @ title_words b))"
    using union_size_pos [of a b] by (simp add: length_new_Set)
  show "calculateSimpleSimilarity a b = calculateSimpleSimilarity b a"
    by (simp add: similarity_jaccard Int_commute Un_commute)
  have le: "card (set (title_words a) \<inter> set (title_words b))
      \<le> card (set (title_words a) \<union> set (title_words b))"
    by (rule card_mono) auto
  show "\<exists>r. calculateSimpleSimilarity a b = Num r \<and> 0 \<le> r \<and> r \<le> 1"
  proof -
    let ?n = "card (set (title_words a) \<inter> set (title_words b))"
    let ?d = "card (set (title_words a) \<union> set (title_words b))"
    from union_size_pos [of a b] have d: "?d \<noteq> 0" by linarith
    then have "calculateSimpleSimilarity a b = Num (real ?n / real ?d)"
      unfolding similarity_jaccard js_div_def by (simp only: if_False)
    moreover have "0 \<le> real ?n / real ?d" by simp
    moreover from le union_size_pos [of a b] have "real ?n / real ?d \<le> 1"
      by (simp only: divide_le_eq_1_pos of_nat_0_less_iff of_nat_le_iff)
    ultimately show ?thesis by blast
  qed
qed

lemma title_words_not_Nil: "title_words a \<noteq> []"
  using title_words_nonempty [of a] by auto

lemma sim_identical: "title a = title b \<Longrightarrow> calculateSimpleSimilarity a b = Num 1"
proof -
  assume t: "title a = title b"
  then have "title_words a = title_words b" by (simp add: title_words_def)
  then show ?thesis
    by (simp add: similarity_jaccard js_div_def title_words_not_Nil)
qed

lemma sim_disjoint:
  "set (split_ws (toLowerCase (title a))) \<inter> set (split_ws (toLowerCase (title b))) = {}
   \<Longrightarrow> calculateSimpleSimilarity a b = Num 0"
  using title_words_not_Nil [of a]
  by (simp add: similarity_jaccard js_div_def set_title_words [symmetric])

lemma related_ops_edge:
  "CreateRelated x y s \<in> set (related_ops arts p) \<Longrightarrow>
   x = article_id p
   \<and> (\<exists>q\<in>set (take 5 (filter (\<lambda>other. article_id other \<noteq> article_id p
                                        \<and> category other = category p) arts)).
          y = article_id q \<and> s = calculateSimpleSimilarity p q \<and> js_gt s (3 / 10))"
  by (auto simp: related_ops_def potentialRelated_def)

lemma link_article_edge:
  "CreateRelated x y s \<in> set (link_article emb arts p) \<Longrightarrow>
   CreateRelated x y s \<in> set (related_ops arts p) \<and> truthy (content p)
   \<and> emb (title p @ [CHR 0x0A] @ the (content p)) \<noteq> []"
  by (auto simp: link_article_def Let_def split: if_splits)

lemma candidate_props:
  "q \<in> set (take 5 (filter (\<lambda>other. article_id other \<noteq> article_id p
                                 \<and> category other = category p) arts)) \<Longrightarrow>
   q \<in> set arts \<and> article_id q \<noteq> article_id p \<and> category q = category p"
  by (auto dest: in_set_takeD)

lemma related_ops_length: "length (related_ops arts p) \<le> 5"
  by (simp add: related_ops_def) (rule le_trans [OF length_filter_le], simp)

lemma filter_is_edge_related: "filter is_edge (related_ops arts p) = related_ops arts p"
  by (simp add: related_ops_def filter_map comp_def)

lemma candidate_is_linked:
  assumes "q \<in> set (take 5 (filter (\<lambda>other. article_id other \<noteq> article_id p
                                       \<and> category other = category p) arts))"
    and "js_gt (calculateSimpleSimilarity p q) (3 / 10)"
    and "truthy (content p)" and "emb (title p @ [CHR 0x0A] @ the (content p)) \<noteq> []"
  shows "CreateRelated (article_id p) (article_id q) (calculateSimpleSimilarity p q)
           \<in> set (link_article emb arts p)"
proof -
  from assms(1,2) have "CreateRelated (article_id p) (article_id q) (calculateSimpleSimilarity p q)
      \<in> set (related_ops arts p)"
    by (auto simp: related_ops_def potentialRelated_def)
  with assms(3,4) show ?thesis by (simp add: link_article_def Let_def)
qed

lemma example_words_hello: "split_ws (toLowerCase ''Hello World'') = [''hello'', ''world'']"
  by code_simp

lemma example_words_other: "split_ws (toLowerCase ''Other thing'') = [''other'', ''thing'']"
  by code_simp

lemma example_week_run:
  "generateRelatedArticles (\<lambda>t. [1 / 2]) example_week =
     [SetEmbedding 1 [1 / 2], CreateRelated 1 2 (Num 1),
      SetEmbedding 2 [1 / 2], CreateRelated 2 1 (Num 1),
      SetEmbedding 3 [1 / 2]]"
  by (simp add: generateRelatedArticles_def link_article_def related_ops_def potentialRelated_def
      example_week_def example_article_def truthy_def calculateSimpleSimilarity_def
      title_words_def example_words_hello example_words_other new_Set_def set_add_def
      js_div_def)

lemma example_seven_candidates:
  "take 5 (filter (\<lambda>other. article_id other \<noteq> article_id (example_article 1 ''Hello World'' ai_ml)
                           \<and> category other = category (example_article 1 ''Hello World'' ai_ml))
             example_seven)
     = [example_article 2 ''Hello World'' ai_ml, example_article 3 ''Hello World'' ai_ml,
        example_article 4 ''Hello World'' ai_ml, example_article 5 ''Hello World'' ai_ml,
        example_article 6 ''Hello World'' ai_ml]"
  by (simp add: example_seven_def example_article_def)

lemma example_seven_run:
  "link_article (\<lambda>t. [1 / 2]) example_seven (example_article 1 ''Hello World'' ai_ml) =
     [SetEmbedding 1 [1 / 2], CreateRelated 1 2 (Num 1), CreateRelated 1 3 (Num 1),
      CreateRelated 1 4 (Num 1), CreateRelated 1 5 (Num 1), CreateRelated 1 6 (Num 1)]"
proof -
  have sim: "calculateSimpleSimilarity (example_article j ''Hello World'' ai_ml)
      (example_article i ''Hello World'' ai_ml) = Num 1" for i j
    by (rule sim_identical) (simp add: example_article_def)
  have ids: "article_id (example_article i t c) = i" "truthy (content (example_article i t c))" for i t c
    by (simp_all add: example_article_def truthy_def)
  show ?thesis
    unfolding link_article_def related_ops_def potentialRelated_def Let_def
      example_seven_candidates
    by (simp add: sim ids)
qed

text \<open>
  C6. The similarity of two articles is the Jaccard overlap of the sets of words of
  their lower-cased titles (the size of the intersection over the size of the
  union); two articles with the same title score 1, two articles whose titles share
  no word score 0. Every edge a run of the linker creates starts at an article
  \<open>p\<close> of the sample that has content and an embedding, and ends at one of the
  first five candidates of \<open>p\<close>, the candidates being the articles of the sample
  with another key and the category of \<open>p\<close>, in the order of the sample; the edge
  carries the similarity of the two, which is strictly above 0.3. Conversely each
  of the first five candidates whose similarity is above 0.3 gets its edge, so the
  sixth candidate and those after it are never looked at, whatever their
  similarity and that of the five before them. One source article yields at most
  5 edges.
\<close>

theorem linker_similarity_and_edges:
  "calculateSimpleSimilarity a b =
     js_div (card (set (split_ws (toLowerCase (title a))) \<inter> set (split_ws (toLowerCase (title b)))))
            (card (set (split_ws (toLowerCase (title a))) \<union> set (split_ws (toLowerCase (title b)))))
   \<and> (title a = title b \<longrightarrow> calculateSimpleSimilarity a b = Num 1)
   \<and> (set (split_ws (toLowerCase (title a))) \<inter> set (split_ws (toLowerCase (title b))) = {}
        \<longrightarrow> calculateSimpleSimilarity a b = Num 0)
   \<and> (CreateRelated x y s \<in> set (generateRelatedArticles generateEmbedding recentArticles) \<longrightarrow>
        (\<exists>p\<in>set recentArticles.
           \<exists>q\<in>set (take 5 (filter (\<lambda>other. article_id other \<noteq> article_id p
                                           \<and> category other = category p) recentArticles)).
            q \<in> set recentArticles
            \<and> x = article_id p \<and> y = article_id q \<and> x \<noteq> y \<and> category p = category q
            \<and> s = calculateSimpleSimilarity p q \<and> js_gt s (3 / 10)
            \<and> truthy (content p)
            \<and> generateEmbedding (title p @ [CHR 0x0A] @ the (content p)) \<noteq> []))
   \<and> (a \<in> set recentArticles
        \<and> b \<in> set (take 5 (filter (\<lambda>other. article_id other \<noteq> article_id a
                                          \<and> category other = category a) recentArticles))
        \<and> js_gt (calculateSimpleSimilarity a b) (3 / 10)
        \<and> truthy (content a)
        \<and> generateEmbedding (title a @ [CHR 0x0A] @ the (content a)) \<noteq> [] \<longrightarrow>
        CreateRelated (article_id a) (article_id b) (calculateSimpleSimilarity a b)
          \<in> set (generateRelatedArticles generateEmbedding recentArticles))
   \<and> length (filter is_edge (link_article generateEmbedding recentArticles a)) \<le> 5"
proof (intro conjI impI)
  show "calculateSimpleSimilarity a b =
     js_div (card (set (split_ws (toLowerCase (title a))) \<inter> set (split_ws (toLowerCase (title b)))))
            (card (set (split_ws (toLowerCase (title a))) \<union> set (split_ws (toLowerCase (title b)))))"
    by (simp add: similarity_jaccard set_title_words)
next
  assume "title a = title b"
  then show "calculateSimpleSimilarity a b = Num 1"
    by (rule sim_identical)
next
  assume "set (split_ws (toLowerCase (title a))) \<inter> set (split_ws (toLowerCase (title b))) = {}"
  then show "calculateSimpleSimilarity a b = Num 0"
    by (rule sim_disjoint)
next
  assume "CreateRelated x y s \<in> set (generateRelatedArticles generateEmbedding recentArticles)"
  then obtain p where p: "p \<in> set recentArticles"
    and e: "CreateRelated x y s \<in> set (link_article generateEmbedding recentArticles p)"
    by (auto simp: generateRelatedArticles_def)
  from link_article_edge [OF e]
  have r: "CreateRelated x y s \<in> set (related_ops recentArticles p)"
    and c: "truthy (content p)"
      "generateEmbedding (title p @ [CHR 0x0A] @ the (content p)) \<noteq> []"
    by simp_all
  from related_ops_edge [OF r] obtain q
    where q: "q \<in> set (take 5 (filter (\<lambda>other. article_id other \<noteq> article_id p
                                           \<and> category other = category p) recentArticles))"
      and xy: "x = article_id p" "y = article_id q"
      and s: "s = calculateSimpleSimilarity p q" "js_gt s (3 / 10)"
    by blast
  from candidate_props [OF q]
  have q': "q \<in> set recentArticles" "article_id q \<noteq> article_id p" "category q = category p"
    by simp_all
  from q' xy have "x \<noteq> y" "category p = category q" by simp_all
  with p q q'(1) xy s c
  show "\<exists>p\<in>set recentArticles.
           \<exists>q\<in>set (take 5 (filter (\<lambda>other. article_id other \<noteq> article_id p
                                           \<and> category other = category p) recentArticles)).
            q \<in> set recentArticles
            \<and> x = article_id p \<and> y = article_id q \<and> x \<noteq> y \<and> category p = category q
            \<and> s = calculateSimpleSimilarity p q \<and> js_gt s (3 / 10)
            \<and> truthy (content p)
            \<and> generateEmbedding (title p @ [CHR 0x0A] @ the (content p)) \<noteq> []"
    by blast
next
  assume h: "a \<in> set recentArticles
        \<and> b \<in> set (take 5 (filter (\<lambda>other. article_id other \<noteq> article_id a
                                          \<and> category other = category a) recentArticles))
        \<and> js_gt (calculateSimpleSimilarity a b) (3 / 10)
        \<and> truthy (content a)
        \<and> generateEmbedding (title a @ [CHR 0x0A] @ the (content a)) \<noteq> []"
  then have "CreateRelated (article_id a) (article_id b) (calculateSimpleSimilarity a b)
      \<in> set (link_article generateEmbedding recentArticles a)"
    by (blast intro: candidate_is_linked)
  with h show "CreateRelated (article_id a) (article_id b) (calculateSimpleSimilarity a b)
          \<in> set (generateRelatedArticles generateEmbedding recentArticles)"
    by (auto simp: generateRelatedArticles_def)
next
  show "length (filter is_edge (link_article generateEmbedding recentArticles a)) \<le> 5"
    using related_ops_length [of recentArticles a]
    by (simp add: link_article_def Let_def filter_is_edge_related)
qed

theorem linker_similarity_and_edges_witness:
  "calculateSimpleSimilarity (example_article 1 ''Hello World'' ai_ml)
       (example_article 2 ''Hello World'' ai_ml) = Num 1
   \<and> calculateSimpleSimilarity (example_article 1 ''Hello World'' ai_ml)
       (example_article 3 ''Other thing'' ai_ml) = Num 0
   \<and> CreateRelated 1 2 (Num 1) \<in> set (generateRelatedArticles (\<lambda>t. [1 / 2]) example_week)
   \<and> (\<exists>p\<in>set example_week. \<exists>q\<in>set example_week.
          1 = article_id p \<and> 2 = article_id q \<and> category p = category q
          \<and> Num 1 = calculateSimpleSimilarity p q \<and> js_gt (Num 1) (3 / 10))
   \<and> CreateRelated 1 6 (Num 1) \<in> set (generateRelatedArticles (\<lambda>t. [1 / 2]) example_seven)
   \<and> CreateRelated 1 7 (Num 1)
        \<notin> set (link_article (\<lambda>t. [1 / 2]) example_seven (example_article 1 ''Hello World'' ai_ml))
   \<and> calculateSimpleSimilarity (example_article 1 ''Hello World'' ai_ml)
       (example_article 7 ''Hello World'' ai_ml) = Num 1
   \<and> CreateRelated 1 7 (Num 1) \<notin> set (generateRelatedArticles (\<lambda>t. [1 / 2]) example_late)"
proof -
  let ?e1 = "example_article 1 ''Hello World'' ai_ml"
  let ?e2 = "example_article 2 ''Hello World'' ai_ml"
  let ?e3 = "example_article 3 ''Other thing'' ai_ml"
  let ?e6 = "example_article 6 ''Hello World'' ai_ml"
  have same: "title ?e1 = title ?e2"
    by (simp add: example_article_def)
  have apart: "set (split_ws (toLowerCase (title ?e1))) \<inter> set (split_ws (toLowerCase (title ?e3))) = {}"
    by (simp add: example_article_def example_words_hello example_words_other)
  have edge: "CreateRelated 1 2 (Num 1) \<in> set (generateRelatedArticles (\<lambda>t. [1 / 2]) example_week)"
    by (simp add: example_week_run)
  from linker_similarity_and_edges [where a = ?e1 and b = ?e2] same
  have one: "calculateSimpleSimilarity ?e1 ?e2 = Num 1" by blast
  from linker_similarity_and_edges [where a = ?e1 and b = ?e3] apart
  have zero: "calculateSimpleSimilarity ?e1 ?e3 = Num 0" by blast
  from linker_similarity_and_edges [where x = 1 and y = 2 and s = "Num 1"
      and generateEmbedding = "\<lambda>t. [1 / 2]" and recentArticles = example_week] edge
  have found: "\<exists>p\<in>set example_week. \<exists>q\<in>set example_week.
          1 = article_id p \<and> 2 = article_id q \<and> category p = category q
          \<and> Num 1 = calculateSimpleSimilarity p q \<and> js_gt (Num 1) (3 / 10)"
    by blast
  have sim6: "calculateSimpleSimilarity ?e1 ?e6 = Num 1"
    by (rule sim_identical) (simp add: example_article_def)
  have ids: "article_id ?e1 = 1" "article_id ?e6 = 6"
    by (simp_all add: example_article_def)
  have h: "?e1 \<in> set example_seven
      \<and> ?e6 \<in> set (take 5 (filter (\<lambda>other. article_id other \<noteq> article_id ?e1
                                          \<and> category other = category ?e1) example_seven))
      \<and> js_gt (calculateSimpleSimilarity ?e1 ?e6) (3 / 10)
      \<and> truthy (content ?e1)
      \<and> (\<lambda>t. [1 / 2 :: real]) (title ?e1 @ [CHR 0x0A] @ the (content ?e1)) \<noteq> []"
    unfolding example_seven_candidates sim6
    by (simp add: example_seven_def example_article_def truthy_def)
  from linker_similarity_and_edges [where a = ?e1 and b = ?e6
      and generateEmbedding = "\<lambda>t. [1 / 2]" and recentArticles = example_seven] h
  have "CreateRelated (article_id ?e1) (article_id ?e6) (calculateSimpleSimilarity ?e1 ?e6)
          \<in> set (generateRelatedArticles (\<lambda>t. [1 / 2]) example_seven)"
    by blast
  then have six: "CreateRelated 1 6 (Num 1) \<in> set (generateRelatedArticles (\<lambda>t. [1 / 2]) example_seven)"
    by (simp only: sim6 ids)
  have seven: "CreateRelated 1 7 (Num 1)
        \<notin> set (link_article (\<lambda>t. [1 / 2]) example_seven ?e1)"
    unfolding example_seven_run by simp
  have sim7: "calculateSimpleSimilarity ?e1 (example_article 7 ''Hello World'' ai_ml) = Num 1"
    by (rule sim_identical) (simp add: example_article_def)
  have late: "CreateRelated 1 7 (Num 1)
      \<notin> set (generateRelatedArticles (\<lambda>t. [1 / 2]) example_late)"
  proof
    assume "CreateRelated 1 7 (Num 1) \<in> set (generateRelatedArticles (\<lambda>t. [1 / 2]) example_late)"
    with linker_similarity_and_edges [where x = 1 and y = 7 and s = "Num 1"
        and generateEmbedding = "\<lambda>t. [1 / 2]" and recentArticles = example_late]
    have "\<exists>p\<in>set example_late.
           \<exists>q\<in>set (take 5 (filter (\<lambda>other. article_id other \<noteq> article_id p
                                           \<and> category other = category p) example_late)).
            1 = article_id p \<and> 7 = article_id q"
      by blast
    then show False
      by (simp add: example_late_def example_article_def)
  qed
  from one zero edge found six seven sim7 late show ?thesis by blast
qed

subsection \<open>The classifier\<close>

lemma js_includes_Nil: "js_includes s []"
  by (cases s) auto

lemma js_includes_append: "js_includes xs k \<Longrightarrow> js_includes (xs @ ys) k"
proof (induction xs)
  case Nil
  then show ?case by (simp add: js_includes_Nil)
next
  case (Cons x xs)
  show ?case
  proof (cases "prefix k (x # xs)")
    case True
    then have "prefix k ((x # xs) @ ys)" by (rule prefix_prefix)
    then show ?thesis by simp
  next
    case False
    with Cons show ?thesis by simp
  qed
qed

lemma toLowerCase_append: "toLowerCase (xs @ ys) = toLowerCase xs @ toLowerCase ys"
  by (simp add: toLowerCase_def)

lemma openai_title_has_ai: "js_includes (toLowerCase ''OpenAI releases new GPT model'') ''ai''"
  by code_simp

lemma hello_world_has_no_keyword:
  "\<forall>(c, kws) \<in> set category_keywords. \<forall>k \<in> set kws.
      \<not> js_includes (toLowerCase (''Hello World'' @ '' '' @ ''none'')) k"
  by code_simp

lemma hello_world_lower: "toLowerCase ''Hello World'' = toLowerCase ''hello world''"
  by code_simp

text \<open>
  C2. The classifier is a total function from title and body to one of the six
  categories, and it is the first-match rule over the keyword sets in the order
  AI/ML, Startups, Cybersecurity, Mobile, Web3, with \<open>others\<close> as the catch-all.
  The title "OpenAI releases new GPT model" is classified AI/ML whatever the body;
  a text in which no keyword occurs is classified \<open>others\<close>; and the category
  depends on the lower-cased title and body only.
\<close>

theorem classifier_first_match:
  "categorizeArticle t b = first_match_category t b
   \<and> categorizeArticle ''OpenAI releases new GPT model'' b = ai_ml
   \<and> ((\<forall>(c, kws) \<in> set category_keywords. \<forall>k \<in> set kws.
          \<not> js_includes (toLowerCase (t @ '' '' @ b)) k)
        \<longrightarrow> categorizeArticle t b = others)
   \<and> (toLowerCase t = toLowerCase t' \<and> toLowerCase b = toLowerCase b'
        \<longrightarrow> categorizeArticle t b = categorizeArticle t' b')"
proof (intro conjI impI)
  show "categorizeArticle t b = first_match_category t b"
    by (simp add: categorizeArticle_def first_match_category_def category_keywords_def Let_def)
  have "js_includes (toLowerCase (''OpenAI releases new GPT model'' @ '' '' @ b)) ''ai''"
    unfolding toLowerCase_append by (rule js_includes_append [OF openai_title_has_ai])
  then show "categorizeArticle ''OpenAI releases new GPT model'' b = ai_ml"
    by (simp add: categorizeArticle_def Let_def)
next
  assume "\<forall>(c, kws) \<in> set category_keywords. \<forall>k \<in> set kws.
          \<not> js_includes (toLowerCase (t @ '' '' @ b)) k"
  then show "categorizeArticle t b = others"
    by (simp add: categorizeArticle_def Let_def category_keywords_def)
next
  assume "toLowerCase t = toLowerCase t' \<and> toLowerCase b = toLowerCase b'"
  then have "toLowerCase (t @ '' '' @ b) = toLowerCase (t' @ '' '' @ b')"
    by (simp add: toLowerCase_def)
  then show "categorizeArticle t b = categorizeArticle t' b'"
    by (simp add: categorizeArticle_def)
qed

theorem classifier_first_match_witness:
  "categorizeArticle ''Hello World'' ''none'' = others
   \<and> categorizeArticle ''Hello World'' ''none'' = categorizeArticle ''hello world'' ''none''"
  using classifier_first_match [of "''Hello World''" "''none''" "''hello world''" "''none''"]
    hello_world_has_no_keyword hello_world_lower
  by blast

subsection \<open>The ingestion coordinator\<close>

lemma fetch_failure_no_change:
  "fetch u = None \<Longrightarrow> fetchAndStoreArticles fetch dp now sid u st = (0, st)"
  by (simp add: fetchAndStoreArticles_def fetchRSS_def)

lemma fetch_sources_append:
  "fetch_sources fetch dp now (xs @ ys) st =
     fetch_sources fetch dp now ys (fetch_sources fetch dp now xs st)"
  by (induction xs arbitrary: st) (auto split: option.splits)

text \<open>
  C8. When the fetch of a source's feed fails, \<open>fetchAndStoreArticles\<close> returns 0
  and leaves the store as it was: no article is created and the last-fetch time
  of the source is not touched. The loop of \<open>fetchAllSources\<close> goes on: a run over
  the sources \<open>before\<close>, the failing source and the sources \<open>after\<close> is the run over
  \<open>before\<close> followed by the run over \<open>after\<close>.
\<close>

theorem fetch_failure_skips_source:
  "(fetch u = None \<longrightarrow> fetchAndStoreArticles fetch Date_parse now sid u st = (0, st))
   \<and> (rssUrl s = Some u \<and> fetch u = None \<longrightarrow>
        fetch_sources fetch Date_parse now (before @ s # after) st =
        fetch_sources fetch Date_parse now after (fetch_sources fetch Date_parse now before st))"
proof (intro conjI impI)
  assume "fetch u = None"
  then show "fetchAndStoreArticles fetch Date_parse now sid u st = (0, st)"
    by (rule fetch_failure_no_change)
next
  assume a: "rssUrl s = Some u \<and> fetch u = None"
  then have "fetch_sources fetch Date_parse now (s # after) st' =
      fetch_sources fetch Date_parse now after st'" for st'
    by (simp add: fetch_failure_no_change)
  then show "fetch_sources fetch Date_parse now (before @ s # after) st =
        fetch_sources fetch Date_parse now after (fetch_sources fetch Date_parse now before st)"
    by (simp add: fetch_sources_append)
qed

theorem fetch_failure_skips_source_witness:
  "example_fetch ''down'' = None
   \<and> fetchAndStoreArticles example_fetch (\<lambda>d. None) 1000 10 ''down'' example_store
       = (0, example_store)
   \<and> fetch_sources example_fetch (\<lambda>d. None) 1000
        ([] @ example_source 10 ''down'' # [example_source 11 ''up'']) example_store
       = fetch_sources example_fetch (\<lambda>d. None) 1000 [example_source 11 ''up'']
           (fetch_sources example_fetch (\<lambda>d. None) 1000 [] example_store)"
proof -
  have down: "example_fetch ''down'' = None"
    by (simp add: example_fetch_def)
  have url: "rssUrl (example_source 10 ''down'') = Some ''down''"
    by (simp add: example_source_def)
  from fetch_failure_skips_source [where fetch = example_fetch and u = "''down''"
      and s = "example_source 10 ''down''" and Date_parse = "\<lambda>d. None" and now = 1000
      and sid = 10 and st = example_store and before = "[]"
      and after = "[example_source 11 ''up'']"] down url
  show ?thesis by blast
qed

lemma set_order_by_publishedAt_desc: "set (order_by_publishedAt_desc rows) = set rows"
  by (auto simp: order_by_publishedAt_desc_def)

lemma order_by_publishedAt_desc_Nil: "order_by_publishedAt_desc rows = [] \<longleftrightarrow> rows = []"
  using set_order_by_publishedAt_desc [of rows] by (metis set_empty)

lemma search_nonempty_iff:
  "getArticles_search t l st \<noteq> [] \<longleftrightarrow>
     (if t \<noteq> [] then \<exists>a\<in>set (articles st). search_matches t a else articles st \<noteq> [])"
  by (auto simp: getArticles_search_def order_by_publishedAt_desc_Nil filter_empty_conv)

lemma search_grows:
  "getArticles_search t l st \<noteq> [] \<Longrightarrow> articles st' = articles st @ new \<Longrightarrow>
   getArticles_search t l st' \<noteq> []"
  unfolding search_nonempty_iff by (auto split: if_splits)

lemma createArticle_cases:
  "(\<exists>e. createArticle d st = Inl e
        \<and> (refused d \<or> ins_url d \<in> set (map url (articles st))
            \<or> ins_sourceId d \<notin> set (map src_id (sources st))))
   \<or> (\<exists>st' a. createArticle d st = Inr st' \<and> articles st' = articles st @ [a]
        \<and> url a = ins_url d \<and> sources st' = sources st)"
proof (cases "ins_publishedAt d")
  case InvalidDate
  then show ?thesis by (simp add: createArticle_def refused_def)
next
  case p: (Date published)
  show ?thesis
  proof (cases "ins_fetchedAt d")
    case InvalidDate
    with p show ?thesis by (simp add: createArticle_def refused_def)
  next
    case (Date fetched)
    with p show ?thesis by (simp add: createArticle_def refused_def)
  qed
qed

lemma createArticle_Inr:
  "createArticle d st = Inr st' \<Longrightarrow>
   (\<exists>a. articles st' = articles st @ [a] \<and> url a = ins_url d) \<and> sources st' = sources st"
  using createArticle_cases [of d st] by auto

lemma createArticle_Inl:
  assumes "refused d \<or> ins_url d \<in> set (map url (articles st))
      \<or> ins_sourceId d \<notin> set (map src_id (sources st))"
  shows "\<exists>e. createArticle d st = Inl e"
proof (cases "ins_publishedAt d")
  case InvalidDate
  then show ?thesis by (simp add: createArticle_def)
next
  case p: (Date published)
  show ?thesis
  proof (cases "ins_fetchedAt d")
    case InvalidDate
    with p show ?thesis by (simp add: createArticle_def)
  next
    case (Date fetched)
    with p assms show ?thesis by (auto simp: createArticle_def refused_def)
  qed
qed

lemma store_item_grows:
  "store_item dp now sid it st = (n, st') \<Longrightarrow>
   (\<exists>new. articles st' = articles st @ new) \<and> sources st' = sources st"
  by (auto simp: store_item_def split: if_splits sum.splits dest!: createArticle_Inr)

lemma store_items_grows:
  "store_items dp now sid its st = (n, st') \<Longrightarrow>
   (\<exists>new. articles st' = articles st @ new) \<and> sources st' = sources st"
proof (induction its arbitrary: st n st')
  case Nil
  then show ?case by simp
next
  case (Cons it its)
  obtain k st1 where one: "store_item dp now sid it st = (k, st1)" by (cases "store_item dp now sid it st")
  obtain m st2 where rest: "store_items dp now sid its st1 = (m, st2)" by (cases "store_items dp now sid its st1")
  from Cons.prems one rest have "st' = st2" by simp
  with store_item_grows [OF one] Cons.IH [OF rest] show ?case by auto
qed

lemma settled_grows:
  "settled dp sid it st \<Longrightarrow> articles st' = articles st @ new \<Longrightarrow> sources st' = sources st \<Longrightarrow>
   settled dp sid it st'"
  unfolding settled_def using search_grows [of "item_title it" 1 st st' new] by auto

lemma articleData_url: "ins_url (articleData dp now sid it) = item_link it"
  by (simp add: articleData_def)

lemma articleData_source: "ins_sourceId (articleData dp now sid it) = sid"
  by (simp add: articleData_def)

lemma refused_any_time:
  "refused (articleData dp now sid it) = refused (articleData dp now' sid it)"
  by (simp add: refused_def articleData_def item_publishedAt_def)

lemma settled_skips: "settled dp sid it st \<Longrightarrow> store_item dp now sid it st = (0, st)"
proof -
  assume a: "settled dp sid it st"
  show ?thesis
  proof (cases "getArticles_search (item_title it) 1 st \<noteq> []")
    case True
    then show ?thesis by (simp add: store_item_def)
  next
    case False
    with a have "refused (articleData dp now sid it)
        \<or> ins_url (articleData dp now sid it) \<in> set (map url (articles st))
        \<or> ins_sourceId (articleData dp now sid it) \<notin> set (map src_id (sources st))"
      unfolding settled_def articleData_url articleData_source
      using refused_any_time [of dp now sid it 0] by blast
    from createArticle_Inl [OF this] False show ?thesis
      by (auto simp: store_item_def)
  qed
qed

lemma store_item_settles: "settled dp sid it (snd (store_item dp now sid it st))"
proof (cases "getArticles_search (item_title it) 1 st \<noteq> []")
  case True
  then show ?thesis by (simp add: store_item_def settled_def)
next
  case False
  from createArticle_cases [of "articleData dp now sid it" st]
  show ?thesis
  proof
    assume "\<exists>e. createArticle (articleData dp now sid it) st = Inl e
        \<and> (refused (articleData dp now sid it)
            \<or> ins_url (articleData dp now sid it) \<in> set (map url (articles st))
            \<or> ins_sourceId (articleData dp now sid it) \<notin> set (map src_id (sources st)))"
    then obtain e where e: "createArticle (articleData dp now sid it) st = Inl e"
      and r: "refused (articleData dp 0 sid it) \<or> item_link it \<in> set (map url (articles st))
            \<or> sid \<notin> set (map src_id (sources st))"
      unfolding articleData_url articleData_source
      using refused_any_time [of dp now sid it 0] by blast
    from False e have "snd (store_item dp now sid it st) = st" by (simp add: store_item_def)
    with r show ?thesis by (auto simp: settled_def)
  next
    assume "\<exists>st' a. createArticle (articleData dp now sid it) st = Inr st'
        \<and> articles st' = articles st @ [a]
        \<and> url a = ins_url (articleData dp now sid it) \<and> sources st' = sources st"
    then obtain st' a where c: "createArticle (articleData dp now sid it) st = Inr st'"
      and a: "articles st' = articles st @ [a]" "url a = item_link it"
      unfolding articleData_url by blast
    from False c have "snd (store_item dp now sid it st) = st'" by (simp add: store_item_def)
    with a show ?thesis by (simp add: settled_def)
  qed
qed

lemma store_items_settle:
  "it \<in> set its \<Longrightarrow> settled dp sid it (snd (store_items dp now sid its st))"
proof (induction its arbitrary: st)
  case Nil
  then show ?case by simp
next
  case (Cons x xs)
  obtain k st1 where one: "store_item dp now sid x st = (k, st1)" by (cases "store_item dp now sid x st")
  obtain m st2 where rest: "store_items dp now sid xs st1 = (m, st2)" by (cases "store_items dp now sid xs st1")
  show ?case
  proof (cases "it = x")
    case True
    from store_item_settles [of dp sid x now st] one have "settled dp sid x st1" by simp
    with store_items_grows [OF rest] True have "settled dp sid it st2"
      by (auto intro: settled_grows)
    with one rest show ?thesis by simp
  next
    case False
    with Cons.prems have "it \<in> set xs" by simp
    from Cons.IH [OF this, of st1] one rest show ?thesis by simp
  qed
qed

lemma all_settled_no_new:
  "\<forall>it\<in>set its. settled dp sid it st \<Longrightarrow> store_items dp now sid its st = (0, st)"
  by (induction its) (auto simp: settled_skips)

lemma update_keeps_articles: "articles (updateSourceLastFetch now sid st) = articles st"
  by (simp add: updateSourceLastFetch_def)

lemma update_keeps_source_ids:
  "map src_id (sources (updateSourceLastFetch now sid st)) = map src_id (sources st)"
proof -
  have "src_id (if src_id s = sid then s\<lparr>lastFetchAt := Some now\<rparr> else s) = src_id s" for s
    by simp
  then show ?thesis by (simp add: updateSourceLastFetch_def comp_def)
qed

lemma settled_update:
  "settled dp sid it st \<Longrightarrow> settled dp sid it (updateSourceLastFetch now sid' st)"
  unfolding settled_def search_nonempty_iff update_keeps_articles update_keeps_source_ids
  by simp

lemma upd_sources:
  "sources (updateSourceLastFetch now sid st) =
     map (\<lambda>s. if src_id s = sid then s\<lparr>lastFetchAt := Some now\<rparr> else s) (sources st)"
  by (simp add: updateSourceLastFetch_def)

lemma update_sets_lastFetch:
  assumes "s \<in> set (sources (updateSourceLastFetch now sid st))" and "src_id s = sid"
  shows "lastFetchAt s = Some now"
proof -
  from assms(1) obtain s0 where s0: "s0 \<in> set (sources st)"
    and s: "s = (if src_id s0 = sid then s0\<lparr>lastFetchAt := Some now\<rparr> else s0)"
    unfolding upd_sources set_map by (rule imageE)
  show ?thesis
  proof (cases "src_id s0 = sid")
    case True
    with s have "s = s0\<lparr>lastFetchAt := Some now\<rparr>" by (simp only: simp_thms if_True)
    then show ?thesis by simp
  next
    case False
    with s have "s = s0" by (simp only: simp_thms if_False)
    with False assms(2) show ?thesis by blast
  qed
qed

lemma second_run_creates_nothing:
  assumes "fetch u = Some xml"
  shows "fetchAndStoreArticles fetch dp now' sid u
           (snd (fetchAndStoreArticles fetch dp now sid u st))
         = (0, updateSourceLastFetch now' sid (snd (fetchAndStoreArticles fetch dp now sid u st)))"
proof -
  let ?its = "feed_items (parseRSS xml)"
  obtain n st1 where first: "store_items dp now sid ?its st = (n, st1)"
    by (cases "store_items dp now sid ?its st")
  let ?st1 = "updateSourceLastFetch now sid st1"
  from assms first have run1: "snd (fetchAndStoreArticles fetch dp now sid u st) = ?st1"
    by (simp add: fetchAndStoreArticles_def fetchRSS_def)
  have "\<forall>it\<in>set ?its. settled dp sid it ?st1"
  proof
    fix it assume "it \<in> set ?its"
    from store_items_settle [OF this, of dp sid now st] first have "settled dp sid it st1" by simp
    then show "settled dp sid it ?st1" by (rule settled_update)
  qed
  then have "store_items dp now' sid ?its ?st1 = (0, ?st1)" by (rule all_settled_no_new)
  with assms show ?thesis
    unfolding run1 by (simp add: fetchAndStoreArticles_def fetchRSS_def)
qed

lemma example_feed_items:
  "feed_items (parseRSS ''<item><title>AI</title><link>https://example.org/2</link></item>'')
     = [\<lparr>item_title = ''AI'', item_link = ''https://example.org/2'', item_description = [],
         item_pubDate = [], item_guid = [], item_content = []\<rparr>]"
  by code_simp

lemma example_search_finds: "getArticles_search ''AI'' 1 example_store \<noteq> []"
  by code_simp

lemma example_would_insert:
  "isl (createArticle
          (articleData (\<lambda>d. None) 1000 11
             \<lparr>item_title = ''AI'', item_link = ''https://example.org/2'', item_description = [],
               item_pubDate = [], item_guid = [], item_content = []\<rparr>)
          example_store) = False"
  by code_simp

lemma example_run:
  "fetchAndStoreArticles example_fetch (\<lambda>d. None) 1000 11 ''up'' example_store
     = (0, updateSourceLastFetch 1000 11 example_store)"
  using example_search_finds
  by (simp add: fetchAndStoreArticles_def fetchRSS_def example_fetch_def example_feed_items
      store_item_def)

text \<open>
  For every source, store and feed document: when ingestion runs twice over the
  same feed, the second run creates no article and leaves the articles as the
  first run left them, and each run sets the last-fetch time of the source to its
  own clock, the second although it creates nothing.
\<close>

lemma second_run_creates_no_article:
  assumes "fetch u = Some xml"
  shows "fst (fetchAndStoreArticles fetch Date_parse now' sid u
             (snd (fetchAndStoreArticles fetch Date_parse now sid u st))) = 0"
    and "articles (snd (fetchAndStoreArticles fetch Date_parse now' sid u
             (snd (fetchAndStoreArticles fetch Date_parse now sid u st))))
          = articles (snd (fetchAndStoreArticles fetch Date_parse now sid u st))"
    and "\<forall>s \<in> set (sources (snd (fetchAndStoreArticles fetch Date_parse now sid u st))).
            src_id s = sid \<longrightarrow> lastFetchAt s = Some now"
    and "\<forall>s \<in> set (sources (snd (fetchAndStoreArticles fetch Date_parse now' sid u
             (snd (fetchAndStoreArticles fetch Date_parse now sid u st))))).
            src_id s = sid \<longrightarrow> lastFetchAt s = Some now'"
    and "map src_id (sources (snd (fetchAndStoreArticles fetch Date_parse now sid u st)))
          = map src_id (sources st)"
proof -
  let ?st1 = "snd (fetchAndStoreArticles fetch Date_parse now sid u st)"
  note second = second_run_creates_nothing [where fetch = fetch and u = u and xml = xml
      and dp = Date_parse and now = now and now' = now'
      and sid = sid and st = st, OF assms]
  obtain n st0 where first: "store_items Date_parse now sid (feed_items (parseRSS xml)) st = (n, st0)"
    by (cases "store_items Date_parse now sid (feed_items (parseRSS xml)) st")
  with assms have st1: "?st1 = updateSourceLastFetch now sid st0"
    by (simp add: fetchAndStoreArticles_def fetchRSS_def)
  show "fst (fetchAndStoreArticles fetch Date_parse now' sid u ?st1) = 0"
    by (simp add: second)
  show "articles (snd (fetchAndStoreArticles fetch Date_parse now' sid u ?st1)) = articles ?st1"
    by (simp add: second update_keeps_articles)
  show "\<forall>s \<in> set (sources ?st1). src_id s = sid \<longrightarrow> lastFetchAt s = Some now"
    unfolding st1 by (blast intro: update_sets_lastFetch)
  show "\<forall>s \<in> set (sources (snd (fetchAndStoreArticles fetch Date_parse now' sid u ?st1))).
            src_id s = sid \<longrightarrow> lastFetchAt s = Some now'"
    unfolding second snd_conv by (blast intro: update_sets_lastFetch)
  from store_items_grows [OF first] show "map src_id (sources ?st1) = map src_id (sources st)"
    unfolding st1 update_keeps_source_ids by simp
qed

text \<open>
  On a store without articles the first run over the feed of the example creates
  the article of its one item, and the second run creates none.
\<close>

lemma example_first_run:
  "fst (fetchAndStoreArticles example_fetch (\<lambda>d. None) 1000 11 ''up''
          (example_store\<lparr>articles := []\<rparr>)) = 1
   \<and> map title (articles (snd (fetchAndStoreArticles example_fetch (\<lambda>d. None) 1000 11 ''up''
          (example_store\<lparr>articles := []\<rparr>)))) = [''AI'']"
  by code_simp

lemma example_two_runs:
  "fst (fetchAndStoreArticles example_fetch (\<lambda>d. None) 1000 11 ''up''
          (example_store\<lparr>articles := []\<rparr>)) = 1
   \<and> fst (fetchAndStoreArticles example_fetch (\<lambda>d. None) 2000 11 ''up''
          (snd (fetchAndStoreArticles example_fetch (\<lambda>d. None) 1000 11 ''up''
             (example_store\<lparr>articles := []\<rparr>)))) = 0"
proof -
  have "example_fetch ''up''
      = Some ''<item><title>AI</title><link>https://example.org/2</link></item>''"
    by (simp add: example_fetch_def)
  from second_run_creates_no_article(1) [where fetch = example_fetch and u = "''up''", OF this]
    example_first_run
  show ?thesis by blast
qed

text \<open>
  C1. Two runs over an unchanged feed create nothing in the second run, and both
  update the last-fetch time (\<open>second_run_creates_no_article\<close>). The check for an
  existing article, though, is not the check for an article of exactly the item's
  title that the claim describes: it is the free-text search of the store, which
  matches the title as a part of any title or content. In the store below no
  article is titled "AI", the link of the item is new, its source exists and the
  insert would succeed; yet the item is skipped and the run creates nothing,
  because the search finds "AI" inside the title "OpenAI launch".
\<close>

theorem duplicate_check_is_not_exact_title:
  "''AI'' \<notin> set (map title (articles example_store))
   \<and> ''https://example.org/2'' \<notin> set (map url (articles example_store))
   \<and> 11 \<in> set (map src_id (sources example_store))
   \<and> feed_items (parseRSS (the (example_fetch ''up'')))
       = [\<lparr>item_title = ''AI'', item_link = ''https://example.org/2'', item_description = [],
           item_pubDate = [], item_guid = [], item_content = []\<rparr>]
   \<and> isl (createArticle
             (articleData (\<lambda>d. None) 1000 11
                \<lparr>item_title = ''AI'', item_link = ''https://example.org/2'',
                  item_description = [], item_pubDate = [], item_guid = [],
                  item_content = []\<rparr>)
             example_store) = False
   \<and> getArticles_search ''AI'' 1 example_store \<noteq> []
   \<and> fetchAndStoreArticles example_fetch (\<lambda>d. None) 1000 11 ''up'' example_store
       = (0, updateSourceLastFetch 1000 11 example_store)"
  using example_search_finds example_would_insert example_run
  by (simp add: example_fetch_def example_feed_items)
     (simp add: example_store_def example_article_def example_source_def)

subsection \<open>The markup extractor\<close>

lemma set_tl_dropWhile: "set (tl (dropWhile P cs)) \<subseteq> set cs"
proof -
  have "set (tl xs) \<subseteq> set xs" for xs :: "'a list"
    by (cases xs) auto
  then have "set (tl (dropWhile P cs)) \<subseteq> set (dropWhile P cs)" .
  moreover have "set (dropWhile P cs) \<subseteq> set cs"
    by (auto dest: set_dropWhileD)
  ultimately show ?thesis by (rule subset_trans)
qed

lemma set_strip_tags: "set (strip_tags s) \<subseteq> set s"
proof (induction s rule: strip_tags.induct)
  case 1
  then show ?case by simp
next
  case (2 c cs)
  show ?case
  proof (cases "c = CHR ''<'' \<and> CHR ''>'' \<in> set cs")
    case True
    then have eq: "strip_tags (c # cs) = strip_tags (tl (dropWhile (\<lambda>x. x \<noteq> CHR ''>'') cs))"
      by (simp only: strip_tags.simps simp_thms if_True)
    from "2.IH"(1) [OF True] set_tl_dropWhile [of "\<lambda>x. x \<noteq> CHR ''>''" cs]
    have "set (strip_tags (tl (dropWhile (\<lambda>x. x \<noteq> CHR ''>'') cs))) \<subseteq> set cs"
      by (rule subset_trans)
    then show ?thesis unfolding eq by (simp add: subset_insertI2)
  next
    case False
    then have eq: "strip_tags (c # cs) = c # strip_tags cs"
      by (simp only: strip_tags.simps simp_thms if_False)
    from "2.IH"(2) [OF False] show ?thesis unfolding eq by auto
  qed
qed

lemma strip_tags_no_tag: "\<not> has_tag (strip_tags s)"
proof (induction s rule: strip_tags.induct)
  case 1
  then show ?case by simp
next
  case (2 c cs)
  show ?case
  proof (cases "c = CHR ''<'' \<and> CHR ''>'' \<in> set cs")
    case True
    then have eq: "strip_tags (c # cs) = strip_tags (tl (dropWhile (\<lambda>x. x \<noteq> CHR ''>'') cs))"
      by (simp only: strip_tags.simps simp_thms if_True)
    from "2.IH"(1) [OF True] show ?thesis unfolding eq .
  next
    case False
    then have eq: "strip_tags (c # cs) = c # strip_tags cs"
      by (simp only: strip_tags.simps simp_thms if_False)
    from False set_strip_tags [of cs] have "\<not> (c = CHR ''<'' \<and> CHR ''>'' \<in> set (strip_tags cs))"
      by blast
    with "2.IH"(2) [OF False] show ?thesis unfolding eq by simp
  qed
qed
lemma has_tag_brackets: "has_tag s = has_tag (filter is_bracket s)"
proof (induction s)
  case Nil
  then show ?case by simp
next
  case (Cons c cs)
  have mem: "CHR ''>'' \<in> set (filter is_bracket cs) \<longleftrightarrow> CHR ''>'' \<in> set cs"
    by (simp add: is_bracket_def)
  show ?case
  proof (cases "is_bracket c")
    case True
    with Cons mem show ?thesis by simp
  next
    case False
    then have "c \<noteq> CHR ''<''" by (auto simp: is_bracket_def)
    with False Cons show ?thesis by simp
  qed
qed
lemma replace_all_absent:
  "hd pat \<notin> set s \<Longrightarrow> replace_all pat rep s = s"
proof (induction s)
  case Nil
  then show ?case by simp
next
  case (Cons c cs)
  then have "\<not> (pat \<noteq> [] \<and> prefix pat (c # cs))"
    by (cases pat) auto
  then have "replace_all pat rep (c # cs) = c # replace_all pat rep cs"
    by (simp only: replace_all.simps if_False)
  with Cons show ?case by simp
qed

lemma decode_entities_absent: "CHR ''&'' \<notin> set s \<Longrightarrow> decode_entities s = s"
  by (simp add: decode_entities_def replace_all_absent)

lemma space_not_bracket: "is_space c \<Longrightarrow> \<not> is_bracket c"
  by (auto simp: is_space_def is_bracket_def code_of_def)

lemma brackets_collapse_ws: "filter is_bracket (collapse_ws s) = filter is_bracket s"
proof (induction s rule: collapse_ws.induct)
  case 1
  then show ?case by simp
next
  case (2 c cs)
  have drop: "filter is_bracket (dropWhile is_space cs) = filter is_bracket cs"
    by (induction cs) (auto simp: space_not_bracket)
  show ?case
  proof (cases "is_space c")
    case True
    have "\<not> is_bracket CHR '' ''" by (simp add: is_bracket_def)
    with True 2 drop show ?thesis by (simp add: space_not_bracket)
  next
    case False
    with 2 show ?thesis by simp
  qed
qed

lemma brackets_dropWhile: "filter is_bracket (dropWhile is_space s) = filter is_bracket s"
  by (induction s) (auto simp: space_not_bracket)

lemma brackets_trim: "filter is_bracket (trim s) = filter is_bracket s"
proof -
  have "filter is_bracket (trim s) = rev (filter is_bracket (dropWhile is_space (rev (dropWhile is_space s))))"
    by (simp add: trim_def rev_filter)
  also have "\<dots> = rev (filter is_bracket (rev (dropWhile is_space s)))"
    by (simp only: brackets_dropWhile)
  also have "\<dots> = filter is_bracket s"
    by (simp add: rev_filter [symmetric] brackets_dropWhile)
  finally show ?thesis .
qed

lemma cleanHTML_no_tag: "CHR ''&'' \<notin> set s \<Longrightarrow> \<not> has_tag (cleanHTML s)"
proof -
  assume a: "CHR ''&'' \<notin> set s"
  with set_strip_tags [of s] have "CHR ''&'' \<notin> set (strip_tags s)" by auto
  then have "cleanHTML s = (if s = [] then [] else trim (collapse_ws (strip_tags s)))"
    by (simp add: cleanHTML_def decode_entities_absent)
  moreover have "\<not> has_tag (trim (collapse_ws (strip_tags s)))"
    using strip_tags_no_tag [of s]
    by (subst has_tag_brackets) (simp add: brackets_trim brackets_collapse_ws has_tag_brackets [symmetric])
  ultimately show ?thesis by simp
qed


lemma parse_item_fields:
  assumes "parse_item x = Some it"
  shows "\<exists>rt rd. rt \<noteq> [] \<and> item_title it = cleanHTML rt \<and> item_description it = clean_opt rd
      \<and> item_content it = clean_opt rd \<and> item_link it \<noteq> []"
proof -
  define T where "T = (case regex_search (cdata_match_at ''title'') x of
                         Some (g1, g2) \<Rightarrow> js_or g1 g2 | None \<Rightarrow> Some [])"
  define D where "D = (case regex_search (cdata_match_at ''description'') x of
                           Some (g1, g2) \<Rightarrow> js_or g1 g2 | None \<Rightarrow> Some [])"
  from assms have t: "truthy T" and l: "item_link it \<noteq> []"
    and f: "item_title it = clean_opt T" "item_description it = clean_opt D"
      "item_content it = clean_opt D"
    unfolding parse_item_def Let_def T_def D_def by (auto split: if_splits)
  from t obtain rt where "T = Some rt" "rt \<noteq> []"
    by (auto simp: truthy_def split: option.splits)
  with f l show ?thesis by (auto simp: clean_opt_def)
qed

lemma in_map_filter: "y \<in> set (List.map_filter f xs) \<Longrightarrow> \<exists>x\<in>set xs. f x = Some y"
  by (auto simp: List.map_filter_def)

lemma is_space_blank: "is_space CHR '' ''"
  by (simp add: is_space_def code_of_def)

lemma collapse_ws_Cons:
  "collapse_ws (c # cs) = x # xs \<Longrightarrow> is_space x = is_space c"
  by (cases "is_space c") (auto simp: is_space_blank)

lemma collapse_ws_Nil: "collapse_ws t = [] \<longleftrightarrow> t = []"
  by (cases t) auto

lemma collapse_ws_head:
  "t \<noteq> [] \<Longrightarrow> collapse_ws t \<noteq> [] \<and> is_space (hd (collapse_ws t)) = is_space (hd t)"
proof -
  assume "t \<noteq> []"
  then obtain c cs where t: "t = c # cs" by (cases t) auto
  have "collapse_ws (c # cs) \<noteq> []" by (simp only: collapse_ws_Nil) simp
  then obtain x xs where x: "collapse_ws (c # cs) = x # xs"
    by (cases "collapse_ws (c # cs)") blast+
  from collapse_ws_Cons [OF x] t x show ?thesis by simp
qed

lemma collapse_ws_single: "\<not> double_space (collapse_ws s)"
proof (induction s rule: collapse_ws.induct)
  case 1
  then show ?case by simp
next
  case (2 c cs)
  show ?case
  proof (cases "is_space c")
    case True
    let ?t = "dropWhile is_space cs"
    from True have eq: "collapse_ws (c # cs) = CHR '' '' # collapse_ws ?t" by simp
    show ?thesis
    proof (cases "?t = []")
      case True
      with eq show ?thesis by simp
    next
      case False
      then have "\<not> is_space (hd ?t)" by (rule hd_dropWhile)
      with collapse_ws_head [OF False] obtain x xs
        where x: "collapse_ws ?t = x # xs" and nx: "\<not> is_space x"
        by (cases "collapse_ws ?t") auto
      from "2.IH"(1) [OF True] x have "\<not> double_space (x # xs)" by simp
      with eq x nx show ?thesis by simp
    qed
  next
    case False
    then have eq: "collapse_ws (c # cs) = c # collapse_ws cs" by simp
    from "2.IH"(2) [OF False] False show ?thesis
      unfolding eq by (cases "collapse_ws cs") auto
  qed
qed

lemma collapse_ws_blank: "x \<in> set (collapse_ws s) \<Longrightarrow> is_space x \<Longrightarrow> x = CHR '' ''"
proof (induction s rule: collapse_ws.induct)
  case 1
  then show ?case by simp
next
  case (2 c cs)
  then show ?case by (cases "is_space c") auto
qed

lemma double_space_iff:
  "double_space xs \<longleftrightarrow> (\<exists>p c d q. xs = p @ c # d # q \<and> is_space c \<and> is_space d)"
proof
  show "double_space xs \<Longrightarrow> \<exists>p c d q. xs = p @ c # d # q \<and> is_space c \<and> is_space d"
  proof (induction xs rule: double_space.induct)
    case (1 c d cs)
    show ?case
    proof (cases "is_space c \<and> is_space d")
      case True
      then have "c # d # cs = [] @ c # d # cs \<and> is_space c \<and> is_space d" by simp
      then show ?thesis by blast
    next
      case False
      with "1.prems" have "double_space (d # cs)" by simp
      from "1.IH" [OF this] obtain p c' d' q
        where "d # cs = p @ c' # d' # q" "is_space c'" "is_space d'" by blast
      then have "c # d # cs = (c # p) @ c' # d' # q \<and> is_space c' \<and> is_space d'" by simp
      then show ?thesis by blast
    qed
  qed simp_all
next
  assume "\<exists>p c d q. xs = p @ c # d # q \<and> is_space c \<and> is_space d"
  then obtain p c d q where xs: "xs = p @ c # d # q" and s: "is_space c" "is_space d" by blast
  have "double_space (p @ c # d # q)"
  proof (induction p)
    case Nil
    with s show ?case by simp
  next
    case (Cons a p)
    then show ?case by (cases "p @ c # d # q") auto
  qed
  with xs show "double_space xs" by simp
qed

lemma double_space_suffix: "double_space (dropWhile P xs) \<Longrightarrow> double_space xs"
proof -
  assume "double_space (dropWhile P xs)"
  then obtain p c d q where "dropWhile P xs = p @ c # d # q" "is_space c" "is_space d"
    unfolding double_space_iff by blast
  then have "xs = (takeWhile P xs @ p) @ c # d # q \<and> is_space c \<and> is_space d"
    by (metis append.assoc takeWhile_dropWhile_id)
  then show ?thesis unfolding double_space_iff by blast
qed

lemma double_space_rev: "double_space (rev xs) \<Longrightarrow> double_space xs"
proof -
  assume "double_space (rev xs)"
  then obtain p c d q where r: "rev xs = p @ c # d # q" and s: "is_space c" "is_space d"
    unfolding double_space_iff by blast
  from r have "xs = rev (p @ c # d # q)" by (metis rev_rev_ident)
  then have "xs = rev q @ d # c # rev p" by simp
  with s show ?thesis unfolding double_space_iff by blast
qed

lemma trim_single: "\<not> double_space s \<Longrightarrow> \<not> double_space (trim s)"
  unfolding trim_def by (blast dest: double_space_rev double_space_suffix)

lemma set_trim: "set (trim s) \<subseteq> set s"
proof
  fix x assume "x \<in> set (trim s)"
  then have "x \<in> set (dropWhile is_space (rev (dropWhile is_space s)))"
    by (simp add: trim_def)
  then have "x \<in> set (rev (dropWhile is_space s))" by (rule set_dropWhileD)
  then have "x \<in> set (dropWhile is_space s)" by simp
  then show "x \<in> set s" by (rule set_dropWhileD)
qed

lemma trim_ends:
  assumes "trim s \<noteq> []"
  shows "\<not> is_space (hd (trim s)) \<and> \<not> is_space (last (trim s))"
proof -
  let ?u = "dropWhile is_space s"
  let ?v = "dropWhile is_space (rev ?u)"
  from assms have v: "?v \<noteq> []" by (simp add: trim_def)
  have u: "?u \<noteq> []"
  proof
    assume "?u = []"
    then have "?v = []" by (simp only: rev.simps dropWhile.simps)
    with v show False by blast
  qed
  from v have "\<not> is_space (hd ?v)" by (rule hd_dropWhile)
  with v have l: "\<not> is_space (last (trim s))" by (simp add: trim_def last_rev)
  have "rev ?u = takeWhile is_space (rev ?u) @ ?v" by simp
  with v have "last ?v = last (rev ?u)" by (metis last_appendR)
  with u have "last ?v = hd ?u" by (simp add: last_rev)
  moreover from u have "\<not> is_space (hd ?u)" by (rule hd_dropWhile)
  ultimately have "\<not> is_space (hd (trim s))" using v by (simp add: trim_def hd_rev)
  with l show ?thesis by simp
qed

lemma cleanHTML_whitespace:
  "\<not> double_space (cleanHTML s)
   \<and> (\<forall>c \<in> set (cleanHTML s). is_space c \<longrightarrow> c = CHR '' '')
   \<and> (cleanHTML s \<noteq> [] \<longrightarrow> \<not> is_space (hd (cleanHTML s)) \<and> \<not> is_space (last (cleanHTML s)))"
proof (cases "s = []")
  case True
  then show ?thesis by (simp add: cleanHTML_def)
next
  case False
  let ?t = "collapse_ws (decode_entities (strip_tags s))"
  from False have eq: "cleanHTML s = trim ?t" by (simp add: cleanHTML_def)
  have "\<not> double_space (trim ?t)" by (rule trim_single [OF collapse_ws_single])
  moreover have "\<forall>c \<in> set (trim ?t). is_space c \<longrightarrow> c = CHR '' ''"
    using set_trim [of ?t] by (blast intro: collapse_ws_blank)
  moreover have "trim ?t \<noteq> [] \<longrightarrow> \<not> is_space (hd (trim ?t)) \<and> \<not> is_space (last (trim ?t))"
    using trim_ends [of ?t] by blast
  ultimately show ?thesis unfolding eq by blast
qed

lemma escaped_feed_items:
  "feed_items (parseRSS
      ''<item><title>&lt;b&gt;x&lt;/b&gt;</title><link>x</link><description>&lt;i&gt;y&lt;/i&gt;</description></item>'')
     = [\<lparr>item_title = ''<b>x</b>'', item_link = ''x'', item_description = ''<i>y</i>'',
         item_pubDate = [], item_guid = [], item_content = ''<i>y</i>''\<rparr>]"
  by code_simp

lemma escaped_clean: "cleanHTML ''&lt;b&gt;x&lt;/b&gt;'' = ''<b>x</b>''"
  by code_simp

lemma escaped_has_tag: "has_tag ''<b>x</b>'' \<and> has_tag ''<i>y</i>''"
  by code_simp

text \<open>
  C3. The cleansing removes tags first and decodes the escapes afterwards
  (\<open>cleanHTML\<close>: \<open>strip_tags\<close>, then \<open>decode_entities\<close>). The removal of tags
  leaves no complete tag (\<open>strip_tags_no_tag\<close>), but the decoding that follows
  brings markup back: a field that holds a tag written with the escapes
  \<open>&lt;\<close> and \<open>&gt;\<close> is surfaced with that tag in it. For the valid item below
  the title is surfaced as \<open><b>x</b>\<close> and the description and content as
  \<open><i>y</i>\<close>: each holds the characters \<open><\<close> and \<open>>\<close> and a complete tag,
  against the claim that no angle-bracket markup remains in the output.
\<close>

theorem escaped_tag_survives_cleansing:
  "feed_items (parseRSS
      ''<item><title>&lt;b&gt;x&lt;/b&gt;</title><link>x</link><description>&lt;i&gt;y&lt;/i&gt;</description></item>'')
     = [\<lparr>item_title = ''<b>x</b>'', item_link = ''x'', item_description = ''<i>y</i>'',
         item_pubDate = [], item_guid = [], item_content = ''<i>y</i>''\<rparr>]
   \<and> cleanHTML ''&lt;b&gt;x&lt;/b&gt;'' = ''<b>x</b>''
   \<and> has_tag ''<b>x</b>'' \<and> has_tag ''<i>y</i>''
   \<and> CHR ''<'' \<in> set ''<b>x</b>'' \<and> CHR ''>'' \<in> set ''<b>x</b>''
   \<and> CHR ''<'' \<in> set ''<i>y</i>'' \<and> CHR ''>'' \<in> set ''<i>y</i>''"
  using escaped_feed_items escaped_clean escaped_has_tag by simp

subsection \<open>The trending aggregator\<close>

lemma keys_map_bump: "set (map fst (map_bump m k)) = insert k (set (map fst m))"
  by (induction m k rule: map_bump.induct) auto

lemma distinct_map_bump: "distinct (map fst m) \<Longrightarrow> distinct (map fst (map_bump m k))"
proof (induction m k rule: map_bump.induct)
  case (1 k)
  then show ?case by simp
next
  case (2 k' n m k)
  then show ?case using keys_map_bump [of m k] by auto
qed

lemma count_of_map_bump:
  "count_of (map_bump m k) k' = count_of m k' + (if k' = k then 1 else 0)"
  by (induction m k rule: map_bump.induct) (auto simp: count_of_def)

lemma distinct_foldl_map_bump:
  "distinct (map fst m) \<Longrightarrow> distinct (map fst (foldl map_bump m ks))"
  by (induction ks arbitrary: m) (auto simp: distinct_map_bump)

lemma count_of_foldl_map_bump:
  "count_of (foldl map_bump m ks) k' = count_of m k' + count_list ks k'"
  by (induction ks arbitrary: m) (auto simp: count_of_map_bump)

lemma count_list_distinct: "distinct ks \<Longrightarrow> count_list ks k = (if k \<in> set ks then 1 else 0)"
  by (induction ks) auto

lemma distinct_article_keywords: "distinct (article_keywords a)"
  by (simp add: article_keywords_def extractKeywords_def distinct_new_Set)

lemma fst_count_article: "fst (count_article acc a) = foldl map_bump (fst acc) (article_keywords a)"
  by (simp add: count_article_def Let_def)

lemma distinct_count_articles:
  "distinct (map fst (fst acc)) \<Longrightarrow> distinct (map fst (fst (foldl count_article acc arts)))"
  by (induction arts arbitrary: acc) (auto simp: fst_count_article distinct_foldl_map_bump)

lemma count_of_count_articles:
  "count_of (fst (foldl count_article acc arts)) k = count_of (fst acc) k + mentions arts k"
  by (induction arts arbitrary: acc)
     (auto simp: fst_count_article count_of_foldl_map_bump mentions_def
        count_list_distinct distinct_article_keywords)

lemma distinct_keywordCounts: "distinct (map fst (keywordCounts arts))"
  unfolding keywordCounts_def by (rule distinct_count_articles) simp

lemma keywordCounts_mentions:
  assumes "(k, n) \<in> set (keywordCounts arts)"
  shows "n = mentions arts k"
proof -
  from assms distinct_keywordCounts [of arts] have "map_of (keywordCounts arts) k = Some n"
    by simp
  then have "count_of (keywordCounts arts) k = n" by (simp add: count_of_def)
  moreover have "count_of (keywordCounts arts) k = mentions arts k"
    unfolding keywordCounts_def using count_of_count_articles [of "([], [])" arts k]
    by (simp add: count_of_def)
  ultimately show ?thesis by simp
qed

lemma set_sort_by_count: "set (sort_by_count m) = set m"
  by (simp add: sort_by_count_def)

lemma sorted_sort_by_count: "sorted_wrt (\<lambda>x y. snd y \<le> snd x) (sort_by_count m)"
proof -
  have "sorted (map (\<lambda>kn. - int (snd kn)) (sort_by_count m))"
    unfolding sort_by_count_def by (rule sorted_sort_key)
  then show ?thesis
    by (simp add: sorted_map)
qed

lemma global_record_D:
  "r \<in> set (global_records today arts) \<Longrightarrow>
   tr_category r = None \<and> 3 \<le> tr_count r
   \<and> (tr_topic r, tr_count r) \<in> set (take 20 (sort_by_count (keywordCounts arts)))
   \<and> tr_growthRate r = calculateGrowthRate (tr_topic r) (tr_count r) \<and> tr_date r = today"
  by (auto simp: global_records_def)

lemma category_record_D:
  "r \<in> set (category_records today c topics) \<Longrightarrow>
   tr_category r = Some c \<and> 2 \<le> tr_count r
   \<and> (tr_topic r, tr_count r) \<in> set (take 10 (sort_by_count topics))
   \<and> tr_growthRate r = calculateGrowthRate (tr_topic r) (tr_count r) \<and> tr_date r = today"
  by (auto simp: category_records_def)


lemma keys_category_init: "set (map fst (category_init ct c)) = insert c (set (map fst ct))"
  by (auto simp: category_init_def)

lemma map_of_category_init:
  "map_of (category_init ct c) c' =
     (if c' = c \<and> c \<notin> set (map fst ct) then Some [] else map_of ct c')"
proof (cases "c \<in> set (map fst ct)")
  case True
  then show ?thesis by (simp add: category_init_def)
next
  case False
  then have none: "map_of ct c = None" by (simp add: map_of_eq_None_iff)
  from False have "category_init ct c = ct @ [(c, [])]" by (simp add: category_init_def)
  then show ?thesis using False none
    by (cases "map_of ct c'") (auto simp: map_add_def)
qed

lemma distinct_keys_category_init: "distinct_keys ct \<Longrightarrow> distinct_keys (category_init ct c)"
  by (auto simp: distinct_keys_def category_init_def)

lemma keys_category_bump: "map fst (category_bump ct c ks) = map fst ct"
  by (induction ct) (auto simp: category_bump_def)

lemma map_of_category_bump:
  "map_of (category_bump ct c ks) c' =
     (if c' = c then map_option (\<lambda>m. foldl map_bump m ks) (map_of ct c) else map_of ct c')"
  by (induction ct) (auto simp: category_bump_def)

lemma distinct_keys_category_bump: "distinct_keys ct \<Longrightarrow> distinct_keys (category_bump ct c ks)"
  unfolding distinct_keys_def keys_category_bump
  by (auto simp: category_bump_def list_all_iff distinct_foldl_map_bump)

lemma snd_count_article:
  "snd (count_article acc a) =
     category_bump (category_init (snd acc) (categoryKey a)) (categoryKey a) (article_keywords a)"
  by (simp add: count_article_def Let_def)

lemma count_of_Nil: "count_of [] k = 0"
  by (simp add: count_of_def)

lemma category_count_step:
  "category_count (snd (count_article acc a)) c k =
     category_count (snd acc) c k
     + (if categoryKey a = c \<and> k \<in> set (article_keywords a) then 1 else 0)"
proof (cases "categoryKey a = c")
  case False
  then show ?thesis
    by (auto simp: snd_count_article category_count_def map_of_category_bump map_of_category_init)
next
  case True
  show ?thesis
  proof (cases "map_of (snd acc) c")
    case None
    then have "c \<notin> set (map fst (snd acc))" by (simp add: map_of_eq_None_iff)
    with True None show ?thesis
      by (simp add: snd_count_article category_count_def map_of_category_bump
          map_of_category_init count_of_foldl_map_bump count_of_Nil count_list_distinct
          distinct_article_keywords)
  next
    case (Some m)
    then have "c \<in> set (map fst (snd acc))" by (metis map_of_eq_None_iff option.distinct(1) set_map)
    with True Some show ?thesis
      by (simp add: snd_count_article category_count_def map_of_category_bump
          map_of_category_init count_of_foldl_map_bump count_list_distinct
          distinct_article_keywords)
  qed
qed

lemma category_count_fold:
  "category_count (snd (foldl count_article acc arts)) c k =
     category_count (snd acc) c k + mentions (filter (\<lambda>a. categoryKey a = c) arts) k"
  by (induction arts arbitrary: acc) (auto simp: category_count_step mentions_def)

lemma distinct_keys_fold:
  "distinct_keys (snd acc) \<Longrightarrow> distinct_keys (snd (foldl count_article acc arts))"
  by (induction arts arbitrary: acc)
     (auto simp: snd_count_article distinct_keys_category_bump distinct_keys_category_init)

lemma categoryTopics_mentions:
  assumes "(c, topics) \<in> set (categoryTopics arts)" and "(k, n) \<in> set topics"
  shows "n = mentions (filter (\<lambda>a. categoryKey a = c) arts) k"
proof -
  have "distinct_keys (categoryTopics arts)"
    unfolding categoryTopics_def by (rule distinct_keys_fold) (simp add: distinct_keys_def)
  with assms have c: "map_of (categoryTopics arts) c = Some topics"
    and d: "distinct (map fst topics)"
    by (auto simp: distinct_keys_def list_all_iff)
  from d assms(2) have "map_of topics k = Some n" by simp
  with c have "category_count (categoryTopics arts) c k = n"
    by (simp add: category_count_def count_of_def)
  moreover have "category_count (categoryTopics arts) c k
      = mentions (filter (\<lambda>a. categoryKey a = c) arts) k"
    unfolding categoryTopics_def using category_count_fold [of "([], [])" arts c k]
    by (simp add: category_count_def)
  ultimately show ?thesis by simp
qed

lemma keys_order_map_bump: "map fst (map_bump m k) = set_add (map fst m) k"
  by (induction m k rule: map_bump.induct) (auto simp: set_add_def)

lemma keys_order_foldl_map_bump: "map fst (foldl map_bump m ks) = foldl set_add (map fst m) ks"
  by (induction ks arbitrary: m) (simp_all add: keys_order_map_bump)

lemma keys_order_count_articles:
  "map fst (fst (foldl count_article acc arts))
     = foldl set_add (map fst (fst acc)) (concat (map article_keywords arts))"
  by (induction arts arbitrary: acc) (simp_all add: fst_count_article keys_order_foldl_map_bump)

lemma keys_keywordCounts: "map fst (keywordCounts arts) = keyword_order arts"
  using keys_order_count_articles [of "([], [])" arts]
  by (simp add: keywordCounts_def keyword_order_def new_Set_def)

lemma assoc_list_eq:
  "(\<And>k v. (k, v) \<in> set xs \<Longrightarrow> v = f k) \<Longrightarrow> xs = map (\<lambda>k. (k, f k)) (map fst xs)"
  by (induction xs) auto

lemma keywordCounts_eq: "keywordCounts arts = mention_counts arts"
  unfolding mention_counts_def keys_keywordCounts [symmetric]
  by (rule assoc_list_eq) (rule keywordCounts_mentions)

lemma keys_order_category_init: "map fst (category_init ct c) = set_add (map fst ct) c"
  by (simp add: category_init_def set_add_def)

lemma keys_order_categories:
  "map fst (snd (foldl count_article acc arts))
     = foldl set_add (map fst (snd acc)) (map categoryKey arts)"
  by (induction arts arbitrary: acc)
     (simp_all add: snd_count_article keys_category_bump keys_order_category_init)

lemma keys_categoryTopics: "map fst (categoryTopics arts) = new_Set (map categoryKey arts)"
  using keys_order_categories [of "([], [])" arts]
  by (simp add: categoryTopics_def new_Set_def)

lemma category_keys_step:
  "category_keys (snd (count_article acc a)) c =
     (if categoryKey a = c then foldl set_add (category_keys (snd acc) c) (article_keywords a)
      else category_keys (snd acc) c)"
proof (cases "categoryKey a = c")
  case False
  then show ?thesis
    by (auto simp: snd_count_article category_keys_def map_of_category_bump map_of_category_init)
next
  case True
  show ?thesis
  proof (cases "map_of (snd acc) c")
    case None
    then have "c \<notin> set (map fst (snd acc))" by (simp add: map_of_eq_None_iff)
    with True None show ?thesis
      by (simp add: snd_count_article category_keys_def map_of_category_bump
          map_of_category_init keys_order_foldl_map_bump)
  next
    case (Some m)
    then have "c \<in> set (map fst (snd acc))" by (metis map_of_eq_None_iff option.distinct(1) set_map)
    with True Some show ?thesis
      by (simp add: snd_count_article category_keys_def map_of_category_bump
          map_of_category_init keys_order_foldl_map_bump)
  qed
qed

lemma category_keys_fold:
  "category_keys (snd (foldl count_article acc arts)) c =
     foldl set_add (category_keys (snd acc) c) (concat (map article_keywords (of_category c arts)))"
  by (induction arts arbitrary: acc) (simp_all add: category_keys_step of_category_def)

lemma categoryTopics_entry:
  assumes "(c, topics) \<in> set (categoryTopics arts)"
  shows "topics = mention_counts (of_category c arts)"
proof -
  have "distinct_keys (categoryTopics arts)"
    unfolding categoryTopics_def by (rule distinct_keys_fold) (simp add: distinct_keys_def)
  with assms have m: "map_of (categoryTopics arts) c = Some topics"
    by (auto simp: distinct_keys_def)
  have "category_keys (categoryTopics arts) c = keyword_order (of_category c arts)"
    unfolding categoryTopics_def using category_keys_fold [of "([], [])" arts c]
    by (simp add: category_keys_def keyword_order_def new_Set_def)
  with m have keys: "map fst topics = keyword_order (of_category c arts)"
    by (simp add: category_keys_def)
  have "topics = map (\<lambda>k. (k, mentions (of_category c arts) k)) (map fst topics)"
  proof (rule assoc_list_eq)
    fix k v assume "(k, v) \<in> set topics"
    from categoryTopics_mentions [OF assms this]
    show "v = mentions (of_category c arts) k" by (simp add: of_category_def)
  qed
  then show ?thesis unfolding mention_counts_def keys [symmetric] .
qed

lemma categoryTopics_eq:
  "categoryTopics arts
     = map (\<lambda>c. (c, mention_counts (of_category c arts))) (new_Set (map categoryKey arts))"
  unfolding keys_categoryTopics [symmetric]
  by (rule assoc_list_eq) (rule categoryTopics_entry)

lemma global_not_refused: "r \<in> set (global_records today arts) \<Longrightarrow> \<not> insert_refused r"
  by (auto simp: insert_refused_def dest: global_record_D)

lemma global_records_created:
  "set (global_records today arts) \<subseteq> set (updateTrendingTopics today arts)"
proof -
  have "takeWhile (\<lambda>r. \<not> insert_refused r)
          (global_records today arts
           @ concat (map (\<lambda>(cat, topics). category_records today cat topics) (categoryTopics arts)))
        = global_records today arts
          @ takeWhile (\<lambda>r. \<not> insert_refused r)
              (concat (map (\<lambda>(cat, topics). category_records today cat topics) (categoryTopics arts)))"
    by (rule takeWhile_append2) (rule global_not_refused)
  then show ?thesis by (simp add: updateTrendingTopics_def trending_candidates_def)
qed

lemma created_is_candidate:
  "r \<in> set (updateTrendingTopics today arts) \<Longrightarrow>
   r \<in> set (trending_candidates today arts) \<and> \<not> insert_refused r"
  unfolding updateTrendingTopics_def by (auto dest: set_takeWhileD)

lemma candidate_cases:
  "r \<in> set (trending_candidates today arts) \<Longrightarrow>
   r \<in> set (global_records today arts)
   \<or> (\<exists>c topics. (c, topics) \<in> set (categoryTopics arts)
         \<and> r \<in> set (category_records today c topics))"
  by (auto simp: trending_candidates_def)

lemma category_name_label: "category_name c \<in> set category_labels"
  by (cases c) (simp_all add: category_labels_def)

lemma categorised_label:
  assumes "\<forall>a \<in> set arts. category a \<noteq> None" and "c \<in> set (map categoryKey arts)"
  shows "c \<in> set category_labels"
proof -
  from assms(2) obtain a where a: "a \<in> set arts" and c: "c = categoryKey a" by auto
  from assms(1) a obtain x where "category a = Some x" by auto
  with c show ?thesis by (simp add: categoryKey_def category_name_label)
qed

lemma all_created:
  assumes "\<forall>a \<in> set arts. category a \<noteq> None"
  shows "updateTrendingTopics today arts = trending_candidates today arts"
proof -
  have "\<not> insert_refused r" if "r \<in> set (trending_candidates today arts)" for r
  proof -
    from candidate_cases [OF that] show ?thesis
    proof
      assume "r \<in> set (global_records today arts)"
      then show ?thesis by (rule global_not_refused)
    next
      assume "\<exists>c topics. (c, topics) \<in> set (categoryTopics arts)
         \<and> r \<in> set (category_records today c topics)"
      then obtain c topics where ct: "(c, topics) \<in> set (categoryTopics arts)"
        and r: "r \<in> set (category_records today c topics)" by blast
      from ct have "c \<in> set (map fst (categoryTopics arts))" by force
      then have "c \<in> set (map categoryKey arts)"
        unfolding keys_categoryTopics set_new_Set .
      from categorised_label [OF assms this] category_record_D [OF r]
      show ?thesis by (simp add: insert_refused_def)
    qed
  qed
  then show ?thesis
    unfolding updateTrendingTopics_def by (simp add: takeWhile_eq_all_conv)
qed

lemma mentioned_keyword: "0 < mentions arts k \<Longrightarrow> k \<in> set (keyword_order arts)"
  by (auto simp: mentions_def keyword_order_def set_new_Set filter_empty_conv)

lemma length_sort_by_count: "length (sort_by_count m) = length m"
  by (simp add: sort_by_count_def)

lemma in_categoryTopics:
  "c \<in> set (map categoryKey arts) \<Longrightarrow>
   (c, mention_counts (of_category c arts)) \<in> set (categoryTopics arts)"
  unfolding categoryTopics_eq set_map set_new_Set by (rule imageI)

lemma example_day_records:
  "updateTrendingTopics 0 example_day =
     [\<lparr>tr_date = 0, tr_topic = ''gpt'', tr_count = 2, tr_category = Some ''ai_ml'',
       tr_growthRate = 10\<rparr>]"
  by code_simp

lemma example_day_mentions: "mentions example_day ''gpt'' = 2"
  by code_simp

lemma example_five_ranking:
  "take 20 (sort_by_count (mention_counts example_five)) = [(''ai'', 5)]"
  by code_simp

lemma example_five_records:
  "updateTrendingTopics 0 example_five =
     [\<lparr>tr_date = 0, tr_topic = ''ai'', tr_count = 5, tr_category = None, tr_growthRate = 40\<rparr>,
      \<lparr>tr_date = 0, tr_topic = ''ai'', tr_count = 5, tr_category = Some ''ai_ml'',
        tr_growthRate = 40\<rparr>]"
  by code_simp

text \<open>
  The run ends at the first insert the database refuses. Of four articles about
  GPT, two without a category and two in AI/ML, the global record is created; the
  record of the articles without a category is refused, and the record of the
  category AI/ML, which comes after it, is never created.
\<close>

lemma example_mixed_records:
  "trending_candidates 0 example_mixed =
     [\<lparr>tr_date = 0, tr_topic = ''gpt'', tr_count = 4, tr_category = None, tr_growthRate = 30\<rparr>,
      \<lparr>tr_date = 0, tr_topic = ''gpt'', tr_count = 2, tr_category = Some [], tr_growthRate = 10\<rparr>,
      \<lparr>tr_date = 0, tr_topic = ''gpt'', tr_count = 2, tr_category = Some ''ai_ml'',
        tr_growthRate = 10\<rparr>]
   \<and> updateTrendingTopics 0 example_mixed =
     [\<lparr>tr_date = 0, tr_topic = ''gpt'', tr_count = 4, tr_category = None, tr_growthRate = 30\<rparr>]"
  by code_simp

text \<open>
  C5. On a trending run the counts are the mention counts of the sample: the
  global map gives every keyword, in the order of first mention, the number of
  sampled articles that mention it, and the map of a category does so for the
  articles of that category. The keywords are ranked by falling count (the ranking
  is a sorted rearrangement of the counts). Every record created without a
  category has a count of at least 3, which is the number of sampled articles that
  mention its topic, and its topic is among the first 20 of the global ranking;
  every record created with a category has a count of at least 2, which is the
  number of sampled articles of that category that mention its topic, and its
  topic is among the first 10 of the ranking of that category. Conversely every
  keyword among the first 20 of the global ranking with a count of at least 3 gets
  its global record, so every keyword with at least 3 mentions does when the
  sample has no more than 20 keywords; and every keyword among the first 10 of a
  category with a count of at least 2 gets its category record when every sampled
  article has a category. Hence a keyword mentioned exactly twice in the sample
  has no global record; it can still have a category record, as in the example of
  two AI/ML articles about GPT.
\<close>

theorem trending_thresholds:
  "keywordCounts recentArticles = mention_counts recentArticles
   \<and> categoryTopics recentArticles
       = map (\<lambda>c. (c, mention_counts (of_category c recentArticles)))
           (new_Set (map categoryKey recentArticles))
   \<and> sorted_wrt (\<lambda>x y. snd y \<le> snd x) (sort_by_count m) \<and> set (sort_by_count m) = set m
   \<and> length (sort_by_count m) = length m
   \<and> (\<forall>r \<in> set (updateTrendingTopics today recentArticles).
        tr_date r = today \<and> tr_growthRate r = calculateGrowthRate (tr_topic r) (tr_count r)
        \<and> (tr_category r = None \<longrightarrow>
           3 \<le> tr_count r \<and> tr_count r = mentions recentArticles (tr_topic r)
           \<and> (tr_topic r, tr_count r)
               \<in> set (take 20 (sort_by_count (mention_counts recentArticles))))
        \<and> (\<forall>c. tr_category r = Some c \<longrightarrow>
           2 \<le> tr_count r \<and> c \<in> set (map categoryKey recentArticles)
           \<and> c \<in> set category_labels
           \<and> tr_count r = mentions (of_category c recentArticles) (tr_topic r)
           \<and> (tr_topic r, tr_count r)
               \<in> set (take 10 (sort_by_count (mention_counts (of_category c recentArticles))))))
   \<and> ((k, n) \<in> set (take 20 (sort_by_count (mention_counts recentArticles))) \<and> 3 \<le> n \<longrightarrow>
        \<lparr>tr_date = today, tr_topic = k, tr_count = n, tr_category = None,
          tr_growthRate = calculateGrowthRate k n\<rparr>
          \<in> set (updateTrendingTopics today recentArticles))
   \<and> (length (keyword_order recentArticles) \<le> 20 \<and> 3 \<le> mentions recentArticles k \<longrightarrow>
        \<lparr>tr_date = today, tr_topic = k, tr_count = mentions recentArticles k,
          tr_category = None,
          tr_growthRate = calculateGrowthRate k (mentions recentArticles k)\<rparr>
          \<in> set (updateTrendingTopics today recentArticles))
   \<and> ((\<forall>a \<in> set recentArticles. category a \<noteq> None)
        \<and> c \<in> set (map categoryKey recentArticles)
        \<and> (k, n) \<in> set (take 10 (sort_by_count (mention_counts (of_category c recentArticles))))
        \<and> 2 \<le> n \<longrightarrow>
        \<lparr>tr_date = today, tr_topic = k, tr_count = n, tr_category = Some c,
          tr_growthRate = calculateGrowthRate k n\<rparr>
          \<in> set (updateTrendingTopics today recentArticles))
   \<and> (mentions recentArticles k = 2 \<longrightarrow>
        \<not> (\<exists>r \<in> set (updateTrendingTopics today recentArticles).
              tr_category r = None \<and> tr_topic r = k))"
proof -
  let ?recs = "updateTrendingTopics today recentArticles"
  let ?top = "take 20 (sort_by_count (mention_counts recentArticles))"
  have split: "r \<in> set (global_records today recentArticles)
      \<or> (\<exists>c topics. (c, topics) \<in> set (categoryTopics recentArticles)
            \<and> r \<in> set (category_records today c topics))" if "r \<in> set ?recs" for r
    using created_is_candidate [OF that] candidate_cases by blast
  have common: "tr_date r = today \<and> tr_growthRate r = calculateGrowthRate (tr_topic r) (tr_count r)"
    if r: "r \<in> set ?recs" for r
    using split [OF r] by (auto dest: global_record_D category_record_D)
  have global: "3 \<le> tr_count r \<and> tr_count r = mentions recentArticles (tr_topic r)
           \<and> (tr_topic r, tr_count r) \<in> set ?top"
    if r: "r \<in> set ?recs" and none: "tr_category r = None" for r
  proof -
    from split [OF r] none have "r \<in> set (global_records today recentArticles)"
      by (auto dest: category_record_D)
    from global_record_D [OF this]
    have a: "3 \<le> tr_count r"
      and b: "(tr_topic r, tr_count r) \<in> set (take 20 (sort_by_count (keywordCounts recentArticles)))"
      by simp_all
    from b have "(tr_topic r, tr_count r) \<in> set (keywordCounts recentArticles)"
      by (auto dest: in_set_takeD simp: set_sort_by_count)
    from keywordCounts_mentions [OF this] a b show ?thesis by (simp add: keywordCounts_eq)
  qed
  have tagged: "2 \<le> tr_count r \<and> c \<in> set (map categoryKey recentArticles)
           \<and> c \<in> set category_labels
           \<and> tr_count r = mentions (of_category c recentArticles) (tr_topic r)
           \<and> (tr_topic r, tr_count r)
               \<in> set (take 10 (sort_by_count (mention_counts (of_category c recentArticles))))"
    if r: "r \<in> set ?recs" and some: "tr_category r = Some c" for r c
  proof -
    from split [OF r] some obtain c' topics
      where ct': "(c', topics) \<in> set (categoryTopics recentArticles)"
        and rc: "r \<in> set (category_records today c' topics)"
      by (auto dest: global_record_D)
    from category_record_D [OF rc] some have c': "c' = c" and a: "2 \<le> tr_count r"
      and b: "(tr_topic r, tr_count r) \<in> set (take 10 (sort_by_count topics))"
      by simp_all
    from ct' c' have ct: "(c, topics) \<in> set (categoryTopics recentArticles)" by simp
    from b have "(tr_topic r, tr_count r) \<in> set topics"
      by (auto dest: in_set_takeD simp: set_sort_by_count)
    from categoryTopics_mentions [OF ct this]
    have n: "tr_count r = mentions (of_category c recentArticles) (tr_topic r)"
      by (simp add: of_category_def)
    from ct have "c \<in> set (map fst (categoryTopics recentArticles))" by force
    then have key: "c \<in> set (map categoryKey recentArticles)"
      unfolding keys_categoryTopics set_new_Set .
    from created_is_candidate [OF r] some have label: "c \<in> set category_labels"
      by (simp add: insert_refused_def)
    from b categoryTopics_entry [OF ct] a n key label show ?thesis by simp
  qed
  have twice: "\<not> (\<exists>r \<in> set ?recs. tr_category r = None \<and> tr_topic r = k)"
    if "mentions recentArticles k = 2"
  proof
    assume "\<exists>r \<in> set ?recs. tr_category r = None \<and> tr_topic r = k"
    then obtain r where "r \<in> set ?recs" "tr_category r = None" "tr_topic r = k" by blast
    with global [of r] that show False by auto
  qed
  have mk_global: "\<lparr>tr_date = today, tr_topic = k, tr_count = n, tr_category = None,
          tr_growthRate = calculateGrowthRate k n\<rparr> \<in> set ?recs"
    if "(k, n) \<in> set ?top \<and> 3 \<le> n" for k n
  proof -
    from that have "\<lparr>tr_date = today, tr_topic = k, tr_count = n, tr_category = None,
          tr_growthRate = calculateGrowthRate k n\<rparr> \<in> set (global_records today recentArticles)"
      by (force simp: global_records_def keywordCounts_eq)
    with global_records_created [of today recentArticles] show ?thesis by blast
  qed
  have mk_few: "\<lparr>tr_date = today, tr_topic = k, tr_count = mentions recentArticles k,
          tr_category = None,
          tr_growthRate = calculateGrowthRate k (mentions recentArticles k)\<rparr> \<in> set ?recs"
    if "length (keyword_order recentArticles) \<le> 20 \<and> 3 \<le> mentions recentArticles k"
  proof -
    from that have "k \<in> set (keyword_order recentArticles)"
      by (intro mentioned_keyword) linarith
    then have "(k, mentions recentArticles k) \<in> set (mention_counts recentArticles)"
      unfolding mention_counts_def set_map by (rule imageI)
    moreover from that have "?top = sort_by_count (mention_counts recentArticles)"
      by (simp add: length_sort_by_count mention_counts_def)
    ultimately have "(k, mentions recentArticles k) \<in> set ?top"
      by (simp add: set_sort_by_count)
    with that mk_global [of k "mentions recentArticles k"] show ?thesis by blast
  qed
  have mk_tagged: "\<lparr>tr_date = today, tr_topic = k, tr_count = n, tr_category = Some c,
          tr_growthRate = calculateGrowthRate k n\<rparr> \<in> set ?recs"
    if h: "(\<forall>a \<in> set recentArticles. category a \<noteq> None)
        \<and> c \<in> set (map categoryKey recentArticles)
        \<and> (k, n) \<in> set (take 10 (sort_by_count (mention_counts (of_category c recentArticles))))
        \<and> 2 \<le> n"
  proof -
    from h have all: "\<forall>a \<in> set recentArticles. category a \<noteq> None"
      and key: "c \<in> set (map categoryKey recentArticles)" by blast+
    from in_categoryTopics [OF key] h
    have "\<lparr>tr_date = today, tr_topic = k, tr_count = n, tr_category = Some c,
          tr_growthRate = calculateGrowthRate k n\<rparr>
        \<in> set (trending_candidates today recentArticles)"
      by (force simp: trending_candidates_def category_records_def)
    then show ?thesis unfolding all_created [OF all] .
  qed
  have ranking: "sorted_wrt (\<lambda>x y. snd y \<le> snd x) (sort_by_count m) \<and> set (sort_by_count m) = set m
      \<and> length (sort_by_count m) = length m"
    by (simp add: sorted_sort_by_count set_sort_by_count length_sort_by_count)
  from common global tagged
  have only: "\<forall>r \<in> set ?recs.
        tr_date r = today \<and> tr_growthRate r = calculateGrowthRate (tr_topic r) (tr_count r)
        \<and> (tr_category r = None \<longrightarrow>
           3 \<le> tr_count r \<and> tr_count r = mentions recentArticles (tr_topic r)
           \<and> (tr_topic r, tr_count r) \<in> set ?top)
        \<and> (\<forall>c. tr_category r = Some c \<longrightarrow>
           2 \<le> tr_count r \<and> c \<in> set (map categoryKey recentArticles)
           \<and> c \<in> set category_labels
           \<and> tr_count r = mentions (of_category c recentArticles) (tr_topic r)
           \<and> (tr_topic r, tr_count r)
               \<in> set (take 10 (sort_by_count (mention_counts (of_category c recentArticles)))))"
    by blast
  from keywordCounts_eq [of recentArticles] categoryTopics_eq [of recentArticles] ranking only
    mk_global [of k n] mk_few mk_tagged twice
  show ?thesis by blast
qed

theorem trending_thresholds_witness:
  "updateTrendingTopics 0 example_five =
     [\<lparr>tr_date = 0, tr_topic = ''ai'', tr_count = 5, tr_category = None, tr_growthRate = 40\<rparr>,
      \<lparr>tr_date = 0, tr_topic = ''ai'', tr_count = 5, tr_category = Some ''ai_ml'',
        tr_growthRate = 40\<rparr>]
   \<and> keywordCounts example_five = [(''ai'', 5)]
   \<and> mentions example_five ''ai'' = 5
   \<and> mentions (of_category ''ai_ml'' example_five) ''ai'' = 5
   \<and> length (keyword_order example_five) \<le> 20
   \<and> None \<notin> set (map category example_five)
   \<and> ''ai_ml'' \<in> set (map categoryKey example_five)
   \<and> updateTrendingTopics 0 example_day =
     [\<lparr>tr_date = 0, tr_topic = ''gpt'', tr_count = 2, tr_category = Some ''ai_ml'',
       tr_growthRate = 10\<rparr>]
   \<and> mentions example_day ''gpt'' = 2
   \<and> \<not> (\<exists>r \<in> set (updateTrendingTopics 0 example_day). tr_category r = None \<and> tr_topic r = ''gpt'')
   \<and> (2::nat) = mentions (of_category ''ai_ml'' example_day) ''gpt''"
proof -
  let ?g = "\<lparr>tr_date = 0, tr_topic = ''ai'', tr_count = 5, tr_category = None,
       tr_growthRate = 40\<rparr>"
  let ?c = "\<lparr>tr_date = 0, tr_topic = ''ai'', tr_count = 5, tr_category = Some ''ai_ml'',
       tr_growthRate = 40\<rparr>"
  let ?r = "\<lparr>tr_date = 0, tr_topic = ''gpt'', tr_count = 2, tr_category = Some ''ai_ml'',
       tr_growthRate = 10\<rparr>"
  note five = trending_thresholds [where today = 0 and recentArticles = example_five
      and k = "''ai''" and n = 5 and c = "''ai_ml''" and m = "[]"]
  note day = trending_thresholds [where today = 0 and recentArticles = example_day
      and k = "''gpt''" and n = 2 and c = "''ai_ml''" and m = "[]"]
  note five_counts = five [THEN conjunct1]
  note five_only = five [THEN conjunct2, THEN conjunct2, THEN conjunct2, THEN conjunct2,
      THEN conjunct2, THEN conjunct1]
  note five_global = five [THEN conjunct2, THEN conjunct2, THEN conjunct2, THEN conjunct2,
      THEN conjunct2, THEN conjunct2, THEN conjunct1]
  note five_tagged = five [THEN conjunct2, THEN conjunct2, THEN conjunct2, THEN conjunct2,
      THEN conjunct2, THEN conjunct2, THEN conjunct2, THEN conjunct2, THEN conjunct1]
  note day_only = day [THEN conjunct2, THEN conjunct2, THEN conjunct2, THEN conjunct2,
      THEN conjunct2, THEN conjunct1]
  note day_twice = day [THEN conjunct2, THEN conjunct2, THEN conjunct2, THEN conjunct2,
      THEN conjunct2, THEN conjunct2, THEN conjunct2, THEN conjunct2, THEN conjunct2]
  have growth: "calculateGrowthRate ''ai'' 5 = 40" by (simp add: calculateGrowthRate_def)
  have top: "(''ai'', 5) \<in> set (take 20 (sort_by_count (mention_counts example_five)))"
    unfolding example_five_ranking by simp
  have top': "(''ai'', 5)
      \<in> set (take 10 (sort_by_count (mention_counts (of_category ''ai_ml'' example_five))))"
    by code_simp
  have len: "length (keyword_order example_five) \<le> 20" by code_simp
  have all: "\<forall>a \<in> set example_five. category a \<noteq> None"
    by (simp add: example_five_def example_article_def)
  have key: "''ai_ml'' \<in> set (map categoryKey example_five)" by code_simp
  have "mention_counts example_five = [(''ai'', 5)]" by code_simp
  with five_counts have counts: "keywordCounts example_five = [(''ai'', 5)]" by (rule trans)
  have three: "(3::nat) \<le> 5" and two: "(2::nat) \<le> 5" by simp_all
  from five_global top three have g: "?g \<in> set (updateTrendingTopics 0 example_five)"
    unfolding growth by (rule mp [OF _ conjI])
  from all key top' two
  have "(\<forall>a \<in> set example_five. category a \<noteq> None)
        \<and> ''ai_ml'' \<in> set (map categoryKey example_five)
        \<and> (''ai'', 5) \<in> set (take 10 (sort_by_count (mention_counts (of_category ''ai_ml'' example_five))))
        \<and> (2::nat) \<le> 5"
    by (intro conjI)
  with five_tagged have c: "?c \<in> set (updateTrendingTopics 0 example_five)"
    unfolding growth by (rule mp)
  from five_only g have "tr_category ?g = None \<longrightarrow>
        3 \<le> tr_count ?g \<and> tr_count ?g = mentions example_five (tr_topic ?g)
        \<and> (tr_topic ?g, tr_count ?g) \<in> set (take 20 (sort_by_count (mention_counts example_five)))"
    by (blast dest: bspec)
  then have m5: "mentions example_five ''ai'' = 5" by simp
  from five_only c have "\<forall>c. tr_category ?c = Some c \<longrightarrow>
      2 \<le> tr_count ?c \<and> c \<in> set (map categoryKey example_five) \<and> c \<in> set category_labels
      \<and> tr_count ?c = mentions (of_category c example_five) (tr_topic ?c)
      \<and> (tr_topic ?c, tr_count ?c)
           \<in> set (take 10 (sort_by_count (mention_counts (of_category c example_five))))"
    by (blast dest: bspec)
  then have m': "mentions (of_category ''ai_ml'' example_five) ''ai'' = 5" by simp
  have r: "?r \<in> set (updateTrendingTopics 0 example_day)"
    unfolding example_day_records by simp
  from day_twice example_day_mentions
  have no: "\<not> (\<exists>r \<in> set (updateTrendingTopics 0 example_day). tr_category r = None \<and> tr_topic r = ''gpt'')"
    by (rule mp)
  from day_only r have "\<forall>c. tr_category ?r = Some c \<longrightarrow>
      2 \<le> tr_count ?r \<and> c \<in> set (map categoryKey example_day) \<and> c \<in> set category_labels
      \<and> tr_count ?r = mentions (of_category c example_day) (tr_topic ?r)
      \<and> (tr_topic ?r, tr_count ?r)
           \<in> set (take 10 (sort_by_count (mention_counts (of_category c example_day))))"
    by (blast dest: bspec)
  then have twice: "(2::nat) = mentions (of_category ''ai_ml'' example_day) ''gpt''"
    by simp
  have all': "None \<notin> set (map category example_five)"
    by (simp add: example_five_def example_article_def)
  from example_five_records counts m5 m' len all' key example_day_records example_day_mentions
    no twice
  show ?thesis by (intro conjI)
qed

subsection \<open>Where the code departs from its specification\<close>

text \<open>
  C4. The published time of an item is the parse of its date string when the
  string parses, and the current time when the string is absent. For a date string
  that is present and does not parse the code does not fall back to the current
  time: \<open>new Date\<close> of the string is the invalid date, and that is what goes into
  the article data.
\<close>

theorem unparsable_date_is_not_replaced:
  "(item_pubDate item = [] \<longrightarrow> item_publishedAt Date_parse now item = Date now)
   \<and> (item_pubDate item \<noteq> [] \<and> Date_parse (item_pubDate item) = Some t \<longrightarrow>
        item_publishedAt Date_parse now item = Date t)
   \<and> (item_pubDate item \<noteq> [] \<and> Date_parse (item_pubDate item) = None \<longrightarrow>
        item_publishedAt Date_parse now item = InvalidDate
        \<and> ins_publishedAt (articleData Date_parse now sid item) \<noteq> Date now)"
  by (simp add: item_publishedAt_def new_Date_def articleData_def)

theorem unparsable_date_is_not_replaced_witness:
  "item_pubDate example_item \<noteq> []
   \<and> example_Date_parse (item_pubDate example_item) = None
   \<and> item_publishedAt example_Date_parse 1000 example_item = InvalidDate
   \<and> ins_publishedAt (articleData example_Date_parse 1000 11 example_item) \<noteq> Date 1000"
proof -
  have a: "item_pubDate example_item \<noteq> []"
    by (simp add: example_item_def)
  have b: "example_Date_parse (item_pubDate example_item) = None"
    by (simp add: example_item_def example_Date_parse_def)
  from unparsable_date_is_not_replaced [where item = example_item
      and Date_parse = example_Date_parse and now = 1000 and sid = 11] a b
  show ?thesis by blast
qed

text \<open>
  C7. The extractor is total, and an item without a title or without a link is
  dropped. The guard looks at the raw title, though, and the title surfaced is the
  cleansed one: an item whose title holds only white space (or only tags) passes
  the guard and is emitted with an empty title.
\<close>

theorem blank_title_item_is_emitted:
  "feed_items (parseRSS ''<item><title> </title><link>x</link></item>'')
     = [\<lparr>item_title = [], item_link = ''x'', item_description = [],
         item_pubDate = [], item_guid = [], item_content = []\<rparr>]"
  by code_simp

lemma emitted_item_has_link:
  "it \<in> set (feed_items (parseRSS xml)) \<Longrightarrow> item_link it \<noteq> []"
proof -
  assume "it \<in> set (feed_items (parseRSS xml))"
  then obtain x where "parse_item x = Some it"
    by (auto simp: parseRSS_def Let_def dest: in_map_filter)
  from parse_item_fields [OF this] show ?thesis by blast
qed

lemma missing_feed_title_placeholder:
  "regex_search (cdata_match_at ''title'') xml = None \<Longrightarrow>
   feed_title (parseRSS xml) = Some ''Unknown Feed''"
  by (simp add: parseRSS_def)

text \<open>
  C9. \<open>analyzeSentiment\<close> always returns a result, and the neutral default when
  the service is not configured, when the call fails and when the reply is not
  JSON. The clamp of the score does not hold for every reply: a score that is a
  word converts to NaN, and NaN passes \<open>Math.min\<close> and \<open>Math.max\<close> unchanged.
\<close>

theorem non_numeric_score_is_NaN:
  "score (analyzeSentiment (Some (\<lambda>t. Content (Some reply))) (\<lambda>j. Some example_reply)
            (\<lambda>v. NaN) text) = NaN"
  by (simp add: analyzeSentiment_def example_reply_def get_prop_def val_or_def
      Math_min_def Math_max_def truthy_def)

lemma sentiment_neutral_default:
  "analyzeSentiment None JSON_parse coerce text = neutral_default"
  "analyzeSentiment (Some (\<lambda>t. ApiError)) JSON_parse coerce text = neutral_default"
  "analyzeSentiment (Some (\<lambda>t. Content c)) (\<lambda>j. None) coerce text = neutral_default"
  by (simp_all add: analyzeSentiment_def)

end
